theory Spec2Isabelle
  imports Main "HOL-Library.Sublist" "HOL-Library.Char_ord" "HOL-Library.List_Lexorder"
begin

section \<open>Strings and POSIX path helpers\<close>

text \<open>
  Python strings are modelled as \<open>string\<close>, one \<open>char\<close> per code point, so the model
  covers code points below 256. Paths follow \<open>posixpath\<close>: the separator is the slash.
\<close>

definition sep :: char where
  "sep = CHR ''/''"

definition newline :: char where
  "newline = CHR 0x0A"

text \<open>\<open>os.path.basename\<close>: everything after the last slash.\<close>

definition basename :: "string \<Rightarrow> string" where
  "basename p = rev (takeWhile (\<lambda>c. c \<noteq> sep) (rev p))"

text \<open>
  \<open>os.path.dirname\<close>: everything up to and including the last slash, with the trailing
  slashes stripped unless the head consists of slashes only.
\<close>

definition dirname :: "string \<Rightarrow> string" where
  "dirname p =
     (let head = rev (dropWhile (\<lambda>c. c \<noteq> sep) (rev p))
      in if head \<noteq> [] \<and> head \<noteq> replicate (length head) sep
         then rev (dropWhile (\<lambda>c. c = sep) (rev head))
         else head)"

text \<open>\<open>os.path.join\<close> with two components.\<close>

definition path_join :: "string \<Rightarrow> string \<Rightarrow> string" where
  "path_join a b =
     (if b \<noteq> [] \<and> hd b = sep then b
      else if a = [] \<or> last a = sep then a @ b
      else a @ [sep] @ b)"

section \<open>The two folder-name patterns\<close>

text \<open>
  \<open>FLAC_FOLDER_RE = re.compile(r"\[FLAC.*\]")\<close>. A match at the start of \<open>s\<close> needs the
  literal \<open>[FLAC\<close>; the greedy \<open>.*\<close> then runs to the end of the line (the dot does not
  match a newline) and backtracks to the last closing bracket of that line.
  \<open>flac_match_at s\<close> is the length of the match that starts at the head of \<open>s\<close>.
\<close>

fun last_index :: "char \<Rightarrow> string \<Rightarrow> nat option" where
  "last_index c [] = None"
| "last_index c (x # xs) =
     (case last_index c xs of
        Some j \<Rightarrow> Some (Suc j)
      | None \<Rightarrow> if x = c then Some 0 else None)"

definition flac_match_at :: "string \<Rightarrow> nat option" where
  "flac_match_at s =
     (if take 5 s = ''[FLAC'' then
        (case last_index CHR '']'' (takeWhile (\<lambda>c. c \<noteq> newline) (drop 5 s)) of
           Some j \<Rightarrow> Some (5 + j + 1)
         | None \<Rightarrow> None)
      else None)"

text \<open>
  \<open>LOSSLESS_FOLDER_RE = re.compile(r"Lossless", flags=re.IGNORECASE)\<close>: eight characters
  that equal \<open>lossless\<close> after lowering. \<open>lower_char\<close> is \<open>str.lower\<close> on one code
  point below 256: the ASCII capitals and the Latin-1 capitals move up by 32.
\<close>

definition lower_char :: "char \<Rightarrow> char" where
  "lower_char c =
     (let n = (of_char c :: nat)
      in if (65 \<le> n \<and> n \<le> 90) \<or> (192 \<le> n \<and> n \<le> 222 \<and> n \<noteq> 215)
         then char_of (n + 32) else c)"

definition lossless_match_at :: "string \<Rightarrow> nat option" where
  "lossless_match_at s =
     (if map lower_char (take 8 s) = ''lossless'' then Some 8 else None)"

text \<open>
  \<open>pattern.search(s)\<close> as a truth value, and \<open>pattern.sub(repl, s)\<close>: the matches are
  found from left to right, each is replaced, and the scan resumes behind the match
  (a match is never empty here, so the rest behind a match of length \<open>n\<close> at
  \<open>c # cs\<close> is \<open>drop (n - 1) cs\<close>).
  The replacement is inserted as it is, which is what \<open>re.sub\<close> does with a template
  that holds no backslash.
\<close>

fun re_search :: "(string \<Rightarrow> nat option) \<Rightarrow> string \<Rightarrow> bool" where
  "re_search m [] = (m [] \<noteq> None)"
| "re_search m (c # cs) = (m (c # cs) \<noteq> None \<or> re_search m cs)"

function re_sub :: "(string \<Rightarrow> nat option) \<Rightarrow> string \<Rightarrow> string \<Rightarrow> string" where
  "re_sub m repl [] = []"
| "re_sub m repl (c # cs) =
     (case m (c # cs) of
        Some n \<Rightarrow> repl @ re_sub m repl (drop (n - 1) cs)
      | None \<Rightarrow> c # re_sub m repl cs)"
  by pat_completeness auto
termination
  by (relation "measure (\<lambda>(m, repl, s). length s)") auto

section \<open>Path Namer\<close>

definition join_words :: "string list \<Rightarrow> string" where
  "join_words ws = concat (case ws of [] \<Rightarrow> [] | w # r \<Rightarrow> w # map (\<lambda>x. '' '' @ x) r)"

definition build_output_path :: "string \<Rightarrow> string \<Rightarrow> string" where
  "build_output_path path bitrate =
     (let foldername = basename path;
          (foldername, to_append) =
            (if re_search flac_match_at foldername then
               (if re_search lossless_match_at foldername then
                  (re_sub lossless_match_at bitrate (re_sub flac_match_at ''MP3'' foldername), [])
                else (re_sub flac_match_at (''MP3 '' @ bitrate) foldername, []))
             else if re_search lossless_match_at foldername then
               (re_sub lossless_match_at bitrate foldername, [''MP3''])
             else (foldername, [''MP3 '' @ bitrate]));
          foldername =
            (if to_append \<noteq> [] then foldername @ '' ['' @ join_words to_append @ '']''
             else foldername)
      in path_join (dirname path) foldername)"

section \<open>Errors\<close>

text \<open>
  Every exception the transcoding module raises, or lets escape from a library call, is a
  value of this type. \<open>ConflictingTotals\<close> is the \<open>ValueError\<close> of \<open>_prepare_tags\<close>
  and carries the keys its message joins; \<open>InvalidLiteral\<close> is the \<open>ValueError\<close> of
  \<open>int()\<close>.
\<close>

datatype error =
    Abort
  | IndexError
  | KeyError string
  | InvalidLiteral string
  | ConflictingTotals "string list"
  | NoTags string
  | NotVComment string
  | ChannelCount string nat
  | TagsNotCreated string
  | RuntimeError string
  | MutagenError string
  | OSError string
  | BatchFailed "error list"

section \<open>Integers and their decimal text\<close>

text \<open>
  \<open>int(s)\<close> for a string: surrounding whitespace is stripped, one sign is allowed, and
  the digits may be separated by single underscores. Among the code points below 256 the
  decimal digits are \<open>0\<close> to \<open>9\<close>. The whitespace that \<open>int\<close> strips is the ASCII
  whitespace (code points 9 to 13 and the space) and the two whitespace code points above
  127 (133 and 160), which it first turns into spaces; the separators 28 to 31 are kept
  and make the literal invalid. The interpreter's limit on the number of digits of a
  literal is outside the model.
\<close>

definition is_space :: "char \<Rightarrow> bool" where
  "is_space c =
     (let n = (of_char c :: nat)
      in (9 \<le> n \<and> n \<le> 13) \<or> n = 32 \<or> n = 133 \<or> n = 160)"

definition strip :: "string \<Rightarrow> string" where
  "strip s = rev (dropWhile is_space (rev (dropWhile is_space s)))"

definition is_digit :: "char \<Rightarrow> bool" where
  "is_digit c = (let n = (of_char c :: nat) in 48 \<le> n \<and> n \<le> 57)"

definition digit_val :: "char \<Rightarrow> nat" where
  "digit_val c = of_char c - 48"

fun parse_digits :: "nat \<Rightarrow> string \<Rightarrow> nat option" where
  "parse_digits acc [] = Some acc"
| "parse_digits acc [c] =
     (if is_digit c then Some (10 * acc + digit_val c) else None)"
| "parse_digits acc (c # d # ds) =
     (if is_digit c then parse_digits (10 * acc + digit_val c) (d # ds)
      else if c = CHR ''_'' \<and> is_digit d then parse_digits acc (d # ds)
      else None)"

definition py_int :: "string \<Rightarrow> int option" where
  "py_int s =
     (let t = strip s;
          (neg, body) =
            (case t of
               [] \<Rightarrow> (False, [])
             | c # r \<Rightarrow>
                 if c = CHR ''-'' then (True, r)
                 else if c = CHR ''+'' then (False, r)
                 else (False, t))
      in case body of
           [] \<Rightarrow> None
         | c # r \<Rightarrow>
             if is_digit c
             then map_option (\<lambda>n. if neg then - int n else int n) (parse_digits 0 body)
             else None)"

text \<open>\<open>str(i)\<close> for an integer.\<close>

definition digit_char :: "nat \<Rightarrow> char" where
  "digit_char d = char_of (48 + d)"

function str_nat :: "nat \<Rightarrow> string" where
  "str_nat n = (if n < 10 then [digit_char n] else str_nat (n div 10) @ [digit_char (n mod 10)])"
  by pat_completeness auto
termination
  by (relation "measure id") auto

definition py_str :: "int \<Rightarrow> string" where
  "py_str i = (if i < 0 then ''-'' @ str_nat (nat (- i)) else str_nat (nat i))"

section \<open>Tag Normalizer\<close>

text \<open>
  A tag dictionary is an association list in insertion order; a Python \<open>dict\<close> has each
  key once. The comprehension \<open>{k: v for k, v in d.items() if c}\<close> is \<open>filter\<close>, and
  \<open>{**d, k: v}\<close> is \<open>dict_set\<close>: the key keeps its place, a new key goes to the end.
\<close>

type_synonym tagdict = "(string \<times> string list) list"

fun dict_set :: "string \<Rightarrow> 'v \<Rightarrow> (string \<times> 'v) list \<Rightarrow> (string \<times> 'v) list" where
  "dict_set k v [] = [(k, v)]"
| "dict_set k v (p # ps) = (if fst p = k then (k, v) # ps else p # dict_set k v ps)"

definition first :: "'a list \<Rightarrow> error + 'a" where
  "first xs = (case xs of [] \<Rightarrow> Inl IndexError | x # _ \<Rightarrow> Inr x)"

definition getitem :: "tagdict \<Rightarrow> string \<Rightarrow> error + string list" where
  "getitem d k = (case map_of d k of None \<Rightarrow> Inl (KeyError k) | Some v \<Rightarrow> Inr v)"

definition TOT_MAP :: "(string \<times> string list) list" where
  "TOT_MAP =
     [(''tracknumber'', [''tracktotal'', ''totaltracks'', ''total tracks'']),
      (''discnumber'', [''disctotal'', ''totaldiscs'', ''total discs''])]"

definition FLAC_TAGS_NOT_TO_COPY :: "string list" where
  "FLAC_TAGS_NOT_TO_COPY = [''encoder'']"

text \<open>
  \<open>int(result[t][0])\<close> for one synonym key, and the loop \<open>for t in used\<close> that collects
  the parsed totals, in the order in which \<open>used\<close> is given.
\<close>

definition parse_total :: "tagdict \<Rightarrow> string \<Rightarrow> error + int" where
  "parse_total result t =
     (case getitem result t of
        Inl e \<Rightarrow> Inl e
      | Inr vs \<Rightarrow>
          (case first vs of
             Inl e \<Rightarrow> Inl e
           | Inr v \<Rightarrow> (case py_int v of None \<Rightarrow> Inl (InvalidLiteral v) | Some i \<Rightarrow> Inr i)))"

fun parse_totals :: "tagdict \<Rightarrow> string list \<Rightarrow> error + int list" where
  "parse_totals result [] = Inr []"
| "parse_totals result (t # ts) =
     (case parse_total result t of
        Inl e \<Rightarrow> Inl e
      | Inr i \<Rightarrow> (case parse_totals result ts of Inl e \<Rightarrow> Inl e | Inr r \<Rightarrow> Inr (i # r)))"

text \<open>
  \<open>tots & result.keys()\<close> is a Python set. The order in which a set of strings is
  iterated depends on the hash seed of the interpreter and is not fixed by the program:
  it is the parameter \<open>rank\<close>, every function from keys to numbers standing for one
  order (the keys are iterated by increasing rank). The order decides which of several
  failing keys raises first and the order of the keys in the conflict message.
  \<open>without_keys\<close> is the comprehension that removes the total keys.
\<close>

definition used_totals :: "(string \<Rightarrow> nat) \<Rightarrow> string list \<Rightarrow> tagdict \<Rightarrow> string list" where
  "used_totals rank tots result = sort_key rank (filter (\<lambda>t. t \<in> set (map fst result)) tots)"

definition without_keys :: "string list \<Rightarrow> tagdict \<Rightarrow> tagdict" where
  "without_keys used result = filter (\<lambda>kv. fst kv \<notin> set used) result"

text \<open>The body of the loop over \<open>_TOT_MAP\<close>, for one primary key and its synonyms.\<close>

definition merge_totals ::
  "(string \<Rightarrow> nat) \<Rightarrow> string \<Rightarrow> string list \<Rightarrow> tagdict \<Rightarrow> error + tagdict" where
  "merge_totals rank tag tots result =
     (if tag \<notin> set (map fst result) then Inr result
      else
        let used = used_totals rank tots result
        in if used = [] then Inr result
           else
             (case parse_totals result used of
                Inl e \<Rightarrow> Inl e
              | Inr vals \<Rightarrow>
                  let tot_vals = remdups vals;
                      result' = without_keys used result
                  in if length tot_vals = 1 then
                       (case getitem result' tag of
                          Inl e \<Rightarrow> Inl e
                        | Inr vs \<Rightarrow>
                            (case first vs of
                               Inl e \<Rightarrow> Inl e
                             | Inr nr \<Rightarrow>
                                 Inr (dict_set tag [nr @ ''/'' @ py_str (hd tot_vals)] result')))
                     else Inl (ConflictingTotals used)))"

fun merge_all ::
  "(string \<Rightarrow> nat) \<Rightarrow> (string \<times> string list) list \<Rightarrow> tagdict \<Rightarrow> error + tagdict" where
  "merge_all rank [] result = Inr result"
| "merge_all rank ((tag, tots) # rest) result =
     (case merge_totals rank tag tots result of
        Inl e \<Rightarrow> Inl e
      | Inr r \<Rightarrow> merge_all rank rest r)"

text \<open>
  \<open>_prepare_tags\<close>: the first comprehension drops the replaygain and encoder tags, then
  the loop runs over \<open>_TOT_MAP\<close> and the first exception ends the call. \<open>keys\<close> is
  \<open>d.keys()\<close> as a set.
\<close>

definition wanted_tags :: "tagdict \<Rightarrow> tagdict" where
  "wanted_tags tags =
     filter (\<lambda>kv. \<not> prefix ''replaygain'' (fst kv) \<and> fst kv \<notin> set FLAC_TAGS_NOT_TO_COPY) tags"

definition prepare_tags :: "(string \<Rightarrow> nat) \<Rightarrow> tagdict \<Rightarrow> error + tagdict" where
  "prepare_tags rank tags = merge_all rank TOT_MAP (wanted_tags tags)"

definition keys :: "tagdict \<Rightarrow> string set" where
  "keys d = fst ` set d"

section \<open>Files, handles and the world\<close>

text \<open>
  A \<open>pathlib\<close> path is its root (empty, one slash or two) and its components; empty and
  single-dot components are dropped when a path is built from a string. The file system
  lists its directories and files by their components from the root directory, which is
  also the working directory of relative paths. Paths hold no \<open>..\<close> component and there
  are no symbolic links.
\<close>

type_synonym fpath = "string list"

fun split_sep :: "string \<Rightarrow> string list" where
  "split_sep [] = [[]]"
| "split_sep (c # cs) =
     (if c = sep then [] # split_sep cs
      else (case split_sep cs of [] \<Rightarrow> [[c]] | x # xs \<Rightarrow> (c # x) # xs))"

definition parts :: "string \<Rightarrow> fpath" where
  "parts s = filter (\<lambda>c. c \<noteq> [] \<and> c \<noteq> ''.'') (split_sep s)"

definition root_of :: "string \<Rightarrow> string" where
  "root_of s =
     (if take 1 s = ''/'' then (if take 2 s = ''//'' \<and> take 3 s \<noteq> ''///'' then ''//'' else ''/'')
      else [])"

fun join_sep :: "fpath \<Rightarrow> string" where
  "join_sep [] = []"
| "join_sep [c] = c"
| "join_sep (c # d # ds) = c @ [sep] @ join_sep (d # ds)"

text \<open>\<open>str(p)\<close> of a path.\<close>

definition str_path :: "string \<Rightarrow> fpath \<Rightarrow> string" where
  "str_path root ps = (if root = [] \<and> ps = [] then ''.'' else root @ join_sep ps)"

text \<open>
  \<open>PurePath.suffix\<close> and \<open>with_suffix\<close> on a file name, and the extension that
  \<open>os.path.splitext\<close> gives for a file name.
\<close>

definition path_suffix :: "string \<Rightarrow> string" where
  "path_suffix name =
     (case last_index CHR ''.'' name of
        None \<Rightarrow> []
      | Some i \<Rightarrow> if 0 < i \<and> Suc i < length name then drop i name else [])"

definition with_suffix :: "string \<Rightarrow> string \<Rightarrow> string" where
  "with_suffix name suf =
     (let old = path_suffix name
      in if old = [] then name @ suf else take (length name - length old) name @ suf)"

definition splitext_ext :: "string \<Rightarrow> string" where
  "splitext_ext f =
     (case last_index CHR ''.'' f of
        None \<Rightarrow> []
      | Some i \<Rightarrow> if \<exists>c \<in> set (take i f). c \<noteq> CHR ''.'' then drop i f else [])"

definition lower :: "string \<Rightarrow> string" where
  "lower s = map lower_char s"

text \<open>
  What \<open>mutagen\<close> shows of a FLAC file: the channel count of the stream info, the
  embedded pictures, and the tag block (absent, a Vorbis comment given as the dictionary
  \<open>as_dict()\<close> returns, or of another kind).
\<close>

record picture =
  mime :: string
  ptype :: nat
  desc :: string
  pdata :: string

datatype tagblock = NoTagBlock | VComment tagdict | OtherTagBlock

record flac =
  channels :: nat
  pictures :: "picture list"
  vtags :: tagblock

text \<open>
  A frame object is written as the constructor call that builds it:
  \<open>Frame fid e t\<close> is \<open>Frames[fid](encoding=e, text=t)\<close>, \<open>TXXX e d t\<close> is
  \<open>TXXX(encoding=e, desc=d, text=t)\<close> and \<open>APIC e m ty d dat\<close> is
  \<open>APIC(encoding=e, mime=m, type=ty, desc=d, data=dat)\<close>. What a frame class makes of
  its arguments (the time stamp frame \<open>TDRC\<close> parses its text) is the tag library's and
  is not modelled.

  The tag container is a dictionary from frame keys to frames, and \<open>tags.add(frame)\<close>
  stores the frame under its key, in the place of a frame that has the same key. The key
  of a frame is its identifier, followed by the description for \<open>TXXX\<close> and \<open>APIC\<close> and
  by description and language (here empty and \<open>XXX\<close>) for \<open>COMM\<close>.
\<close>

datatype frame =
    Frame string nat "string list"
  | TXXX nat string "string list"
  | APIC nat string nat string string

fun hash_key :: "frame \<Rightarrow> string" where
  "hash_key (Frame fid e t) = (if fid = ''COMM'' then ''COMM::XXX'' else fid)"
| "hash_key (TXXX e d t) = ''TXXX:'' @ d"
| "hash_key (APIC e m ty d dat) = ''APIC:'' @ d"

type_synonym id3tags = "(string \<times> frame) list"

definition id3_add :: "frame \<Rightarrow> id3tags \<Rightarrow> id3tags" where
  "id3_add f c = dict_set (hash_key f) f c"

text \<open>
  An MP3 file is described by what the tag library loads from it and last did to it:
  \<open>id3\<close> is the container that \<open>MP3(path).tags\<close> shows (\<open>None\<close> for a file in which the
  library finds no tag of any version), and \<open>save_args\<close> holds the arguments \<open>v1\<close> and
  \<open>v2_version\<close> of the \<open>save\<close> call that wrote its tags (\<open>None\<close> for a file that no
  \<open>save\<close> has written). With \<open>v1 = 0\<close> the library writes no ID3v1 tag and removes one
  that is there.
\<close>

record mp3 =
  id3 :: "id3tags option"
  save_args :: "(nat \<times> nat) option"

datatype content = Flac flac | Mp3 mp3 | Data string

record world =
  dirs :: "fpath list"
  files :: "(fpath \<times> content) list"
  spawned :: "string list list"
  console :: "string list"

text \<open>
  The environment: what an external process does to the file system and what it
  returns (an error when it cannot be started, else exit code and captured standard
  error), the name that \<open>NamedTemporaryFile\<close> picks, and the order in which the
  interpreter iterates sets of strings.
\<close>

record env =
  run :: "string list \<Rightarrow> world \<Rightarrow> (error + int \<times> string) \<times> world"
  mktemp :: "world \<Rightarrow> string"
  set_rank :: "string \<Rightarrow> nat"

definition secho :: "string \<Rightarrow> world \<Rightarrow> world" where
  "secho msg w = w\<lparr>console := console w @ [msg]\<rparr>"

definition is_dir :: "world \<Rightarrow> fpath \<Rightarrow> bool" where
  "is_dir w p = (p = [] \<or> p \<in> set (dirs w))"

definition is_file :: "world \<Rightarrow> fpath \<Rightarrow> bool" where
  "is_file w p = (p \<in> set (map fst (files w)))"

definition path_exists :: "world \<Rightarrow> fpath \<Rightarrow> bool" where
  "path_exists w p = (is_dir w p \<or> is_file w p)"

definition entries_under :: "world \<Rightarrow> fpath \<Rightarrow> fpath list" where
  "entries_under w d = filter (strict_prefix d) (dirs w @ map fst (files w))"

definition write_file :: "fpath \<Rightarrow> content \<Rightarrow> world \<Rightarrow> world" where
  "write_file p c w = w\<lparr>files := filter (\<lambda>e. fst e \<noteq> p) (files w) @ [(p, c)]\<rparr>"

text \<open>\<open>Path.mkdir(parents=True, exist_ok=True)\<close>.\<close>

definition mkdir_p :: "fpath \<Rightarrow> world \<Rightarrow> error + world" where
  "mkdir_p p w =
     (if \<exists>a \<in> set (prefixes p). is_file w a then Inl (OSError (join_sep p))
      else Inr (w\<lparr>dirs := dirs w @ filter (\<lambda>a. \<not> is_dir w a) (prefixes p)\<rparr>))"

text \<open>\<open>os.unlink\<close>.\<close>

definition unlink :: "fpath \<Rightarrow> world \<Rightarrow> error + world" where
  "unlink p w =
     (if is_file w p then Inr (w\<lparr>files := filter (\<lambda>e. fst e \<noteq> p) (files w)\<rparr>)
      else Inl (OSError (join_sep p)))"

text \<open>\<open>shutil.copy\<close>: into the directory when the target is one.\<close>

definition shutil_copy :: "fpath \<Rightarrow> fpath \<Rightarrow> world \<Rightarrow> error + world" where
  "shutil_copy p out w =
     (case map_of (files w) p of
        None \<Rightarrow> Inl (OSError (join_sep p))
      | Some c \<Rightarrow>
          let target = (if is_dir w out then out @ [last p] else out)
          in if is_dir w target \<or> \<not> is_dir w (butlast target) then Inl (OSError (join_sep target))
             else Inr (write_file target c w))"

text \<open>\<open>anyio.run_process(cmd, check=False)\<close>: the command line is logged.\<close>

definition run_process :: "env \<Rightarrow> string list \<Rightarrow> world \<Rightarrow> (error + int \<times> string) \<times> world" where
  "run_process ev cmd w =
     (let (r, w') = run ev cmd w
      in (r, w\<lparr>dirs := dirs w', files := files w', spawned := spawned w @ [cmd]\<rparr>))"

section \<open>Constants of the module\<close>

definition LAME_COMMAND_MAP :: "(string \<times> string list) list" where
  "LAME_COMMAND_MAP =
     [(''V0'', [''-V'', ''0'', ''--vbr-new'']),
      (''320'', [''-b'', ''320'', ''-h''])]"

definition LAME_OPTIONS :: "string list" where
  "LAME_OPTIONS = [''--quiet'', ''--add-id3v2'', ''--ignore-tag-errors'']"

definition FLAC_DECODE_OPTIONS :: "string list" where
  "FLAC_DECODE_OPTIONS = [''-Vdsc'']"

definition ID3V2_VERSION :: nat where
  "ID3V2_VERSION = 4"

definition COPY_EXTENSIONS :: "string list" where
  "COPY_EXTENSIONS = [''.jpg'', ''.jpeg'', ''.png'', ''.pdf'', ''.txt'']"

definition LOSSY_EXTENSIONS :: "string list" where
  "LOSSY_EXTENSIONS = [''.mp3'', ''.m4a'', ''.ogg'', ''.opus'']"

definition VORBIS_TO_ID3_MAP :: "(string \<times> string) list" where
  "VORBIS_TO_ID3_MAP =
     [(''title'', ''TIT2''),
      (''album'', ''TALB''),
      (''artist'', ''TPE1''),
      (''albumartist'', ''TPE2''),
      (''album artist'', ''TPE2''),
      (''conductor'', ''TPE3''),
      (''remixer'', ''TPE4''),
      (''composer'', ''TCOM''),
      (''tracknumber'', ''TRCK''),
      (''discnumber'', ''TPOS''),
      (''date'', ''TDRC''),
      (''comment'', ''COMM''),
      (''genre'', ''TCON''),
      (''language'', ''TLAN''),
      (''key'', ''TKEY''),
      (''bpm'', ''TBPM''),
      (''publisher'', ''TPUB''),
      (''label'', ''TPUB''),
      (''isrc'', ''TSRC'')]"

record transcode_item =
  src :: string
  dst :: string
  flac_obj :: flac
  tags :: tagdict

section \<open>Lossless Validator\<close>

text \<open>
  \<open>os.walk\<close> visits every file below the folder; the first one with a lossy extension
  is reported and aborts. The model visits the files in the order of the listing.
\<close>

definition validate_lossless :: "string \<Rightarrow> world \<Rightarrow> (error + unit) \<times> world" where
  "validate_lossless path w =
     (case find (\<lambda>f. lower (splitext_ext (last f)) \<in> set LOSSY_EXTENSIONS)
             (filter (strict_prefix (parts path)) (map fst (files w))) of
        None \<Rightarrow> (Inr (), w)
      | Some f \<Rightarrow>
          (Inl Abort, secho (''A lossy file was found in the folder ('' @ last f @ '').'') w))"

section \<open>Metadata Reader and Item Collector\<close>

text \<open>
  \<open>_get_id3_frame\<close> returns the object that the constructor call builds: the frame class
  of the mapped identifier, called with encoding 3 and the value sequence as text, or
  \<open>TXXX\<close> called with encoding 3, the tag name as description and the value sequence as
  text.
\<close>

definition get_id3_frame :: "string \<Rightarrow> string list \<Rightarrow> frame" where
  "get_id3_frame tag_name tag_value =
     (case map_of VORBIS_TO_ID3_MAP tag_name of
        Some frame_name \<Rightarrow> Frame frame_name 3 tag_value
      | None \<Rightarrow> TXXX 3 tag_name tag_value)"

definition parse_flac_tags ::
  "(string \<Rightarrow> nat) \<Rightarrow> string \<Rightarrow> fpath \<Rightarrow> world \<Rightarrow> error + flac \<times> tagdict" where
  "parse_flac_tags rank name flac_path w =
     (case map_of (files w) flac_path of
        Some (Flac fl) \<Rightarrow>
          (case vtags fl of
             NoTagBlock \<Rightarrow> Inl (NoTags name)
           | OtherTagBlock \<Rightarrow> Inl (NotVComment name)
           | VComment d \<Rightarrow>
               (case prepare_tags rank d of Inl e \<Rightarrow> Inl e | Inr tag_dict \<Rightarrow> Inr (fl, tag_dict)))
      | _ \<Rightarrow> Inl (MutagenError name))"

text \<open>
  \<open>src_path.rglob("*.flac")\<close>: every entry below the source folder, file or directory,
  whose name ends in \<open>.flac\<close>; on POSIX the match is case-sensitive. \<open>sorted\<close> orders
  paths by their components.
\<close>

definition rglob_flac :: "fpath \<Rightarrow> world \<Rightarrow> fpath list" where
  "rglob_flac src_path w = filter (\<lambda>e. suffix ''.flac'' (last e)) (entries_under w src_path)"

definition rebase_mp3 :: "fpath \<Rightarrow> fpath \<Rightarrow> fpath \<Rightarrow> fpath" where
  "rebase_mp3 src_path dst_path flac_file =
     (let rel = drop (length src_path) flac_file
      in dst_path @ butlast rel @ [with_suffix (last rel) ''.mp3''])"

fun collect_loop ::
  "(string \<Rightarrow> nat) \<Rightarrow> string \<Rightarrow> fpath \<Rightarrow> string \<Rightarrow> fpath \<Rightarrow> world \<Rightarrow> fpath list
     \<Rightarrow> error + transcode_item list" where
  "collect_loop rank sr src_path dr dst_path w [] = Inr []"
| "collect_loop rank sr src_path dr dst_path w (flac_file # rest) =
     (case parse_flac_tags rank (str_path sr flac_file) flac_file w of
        Inl e \<Rightarrow> Inl e
      | Inr (fl, tag_dict) \<Rightarrow>
          (case collect_loop rank sr src_path dr dst_path w rest of
             Inl e \<Rightarrow> Inl e
           | Inr items \<Rightarrow>
               Inr (\<lparr>src = str_path sr flac_file,
                     dst = str_path dr (rebase_mp3 src_path dst_path flac_file),
                     flac_obj = fl, tags = tag_dict\<rparr> # items)))"

definition collect_transcode_items ::
  "(string \<Rightarrow> nat) \<Rightarrow> string \<Rightarrow> string \<Rightarrow> world \<Rightarrow> error + transcode_item list" where
  "collect_transcode_items rank path new_path w =
     collect_loop rank (root_of path) (parts path) (root_of new_path) (parts new_path) w
       (sort (rglob_flac (parts path) w))"

section \<open>Tag Writer\<close>

text \<open>
  \<open>mp3.MP3(path)\<close> opens a file that is an MP3. \<open>add_tags\<close> makes an empty container and
  raises when the file has one. A container with no frame is false in a Python test. The
  frames are added one by one, first those of the tags in the order of the mapping, then
  those of the pictures, and the file is saved with \<open>v1=0\<close> and the fixed version.
\<close>

definition open_mp3 :: "string \<Rightarrow> world \<Rightarrow> error + mp3" where
  "open_mp3 mp3_path w =
     (case map_of (files w) (parts mp3_path) of
        Some (Mp3 m) \<Rightarrow> Inr m
      | _ \<Rightarrow> Inl (MutagenError mp3_path))"

definition add_tags :: "mp3 \<Rightarrow> error + mp3" where
  "add_tags m =
     (case id3 m of
        None \<Rightarrow> Inr (m\<lparr>id3 := Some []\<rparr>)
      | Some _ \<Rightarrow> Inl (MutagenError ''an ID3 tag already exists''))"

definition apic :: "picture \<Rightarrow> frame" where
  "apic pic = APIC 3 (mime pic) (ptype pic) (desc pic) (pdata pic)"

definition copy_tags :: "tagdict \<Rightarrow> flac \<Rightarrow> string \<Rightarrow> world \<Rightarrow> (error + unit) \<times> world" where
  "copy_tags tag_dict fl mp3_path w =
     (case open_mp3 mp3_path w of
        Inl e \<Rightarrow> (Inl e, w)
      | Inr mp3_thing \<Rightarrow>
          let w1 = secho (''     Copy tags: '' @ mp3_path) w
          in (case (if id3 mp3_thing = None \<or> id3 mp3_thing = Some []
                    then add_tags mp3_thing else Inr mp3_thing) of
                Inl e \<Rightarrow> (Inl e, w1)
              | Inr m \<Rightarrow>
                  (case id3 m of
                     None \<Rightarrow> (Inl (TagsNotCreated mp3_path), w1)
                   | Some frames \<Rightarrow>
                       let added = map (\<lambda>(k, v). get_id3_frame k v) tag_dict
                                   @ map apic (pictures fl)
                       in (Inr (),
                           write_file (parts mp3_path)
                             (Mp3 (m\<lparr>id3 := Some (foldl (\<lambda>c f. id3_add f c) frames added),
                                     save_args := Some (0, ID3V2_VERSION)\<rparr>)) w1))))"

section \<open>Auxiliary Copier\<close>

fun copy_loop :: "fpath \<Rightarrow> fpath \<Rightarrow> fpath list \<Rightarrow> world \<Rightarrow> (error + unit) \<times> world" where
  "copy_loop src_path dst_path [] w = (Inr (), w)"
| "copy_loop src_path dst_path (p # ps) w =
     (if \<not> is_file w p \<or> lower (path_suffix (last p)) \<notin> set COPY_EXTENSIONS
      then copy_loop src_path dst_path ps w
      else
        let rel = drop (length src_path) p;
            w1 = secho (''Copy '' @ join_sep rel) w;
            out = dst_path @ rel
        in (case mkdir_p (butlast out) w1 of
              Inl e \<Rightarrow> (Inl e, w1)
            | Inr w2 \<Rightarrow>
                (case shutil_copy p out w2 of
                   Inl e \<Rightarrow> (Inl e, w2)
                 | Inr w3 \<Rightarrow> copy_loop src_path dst_path ps w3)))"

text \<open>The entries of \<open>rglob("*")\<close> are taken when the walk starts, in listing order.\<close>

definition copy_extra_files :: "string \<Rightarrow> string \<Rightarrow> world \<Rightarrow> (error + unit) \<times> world" where
  "copy_extra_files path new_path w =
     copy_loop (parts path) (parts new_path) (entries_under w (parts path)) w"

section \<open>Transcode Engine\<close>

text \<open>
  The two command lines of \<open>_flac_to_mp3\<close>, and the body of its \<open>try\<close> block: the
  decoder runs, a non-zero exit prints the captured standard error (when there is any)
  and raises with the exit code; then the encoder runs, and a non-zero exit raises with
  its captured standard error, or with a fixed message when there is none.
\<close>

definition flac_cmd :: "string \<Rightarrow> string \<Rightarrow> string list" where
  "flac_cmd tmp_path flac_path = [''flac''] @ FLAC_DECODE_OPTIONS @ [''-o'', tmp_path, flac_path]"

definition lame_cmd :: "string list \<Rightarrow> string \<Rightarrow> string \<Rightarrow> string list" where
  "lame_cmd preset tmp_path mp3_path = [''lame''] @ preset @ LAME_OPTIONS @ [tmp_path, mp3_path]"

definition decode_encode ::
  "env \<Rightarrow> string \<Rightarrow> string \<Rightarrow> string \<Rightarrow> string \<Rightarrow> world \<Rightarrow> (error + unit) \<times> world" where
  "decode_encode ev lame_qual flac_path mp3_path tmp_path w =
     (case run_process ev (flac_cmd tmp_path flac_path) w of
        (Inl e, w1) \<Rightarrow> (Inl e, w1)
      | (Inr (rc, err), w1) \<Rightarrow>
          if rc \<noteq> 0 then
            (Inl (RuntimeError (''FLAC decoding failed with code '' @ py_str rc)),
             if err \<noteq> [] then secho err w1 else w1)
          else
            (case map_of LAME_COMMAND_MAP lame_qual of
               None \<Rightarrow> (Inl (KeyError lame_qual), w1)
             | Some preset \<Rightarrow>
                 (case run_process ev (lame_cmd preset tmp_path mp3_path) w1 of
                    (Inl e, w2) \<Rightarrow> (Inl e, w2)
                  | (Inr (rc2, err2), w2) \<Rightarrow>
                      if rc2 \<noteq> 0 then
                        (Inl (RuntimeError (if err2 \<noteq> [] then err2 else ''LAME encoding failed'')),
                         w2)
                      else (Inr (), w2))))"

text \<open>
  \<open>_flac_to_mp3\<close>: the parent directory of the destination is made, the temporary file
  is created, the body runs, and the \<open>finally\<close> block unlinks the temporary path when
  it exists; an error of the unlink replaces the outcome of the body.
\<close>

definition flac_to_mp3 ::
  "env \<Rightarrow> string \<Rightarrow> string \<Rightarrow> string \<Rightarrow> world \<Rightarrow> (error + unit) \<times> world" where
  "flac_to_mp3 ev lame_qual flac_path mp3_path w =
     (case mkdir_p (butlast (parts mp3_path)) w of
        Inl e \<Rightarrow> (Inl e, w)
      | Inr w1 \<Rightarrow>
          let tmp_path = mktemp ev w1;
              w2 = write_file (parts tmp_path) (Data []) w1;
              (r, w3) = decode_encode ev lame_qual flac_path mp3_path tmp_path w2
          in if path_exists w3 (parts tmp_path) then
               (case unlink (parts tmp_path) w3 of
                  Inl e \<Rightarrow> (Inl e, w3)
                | Inr w4 \<Rightarrow> (r, w4))
             else (r, w3))"

text \<open>The unit of work of \<open>_transcode_audio_files\<close> for the item at index \<open>idx\<close>.\<close>

definition transcode_one ::
  "env \<Rightarrow> transcode_item list \<Rightarrow> string \<Rightarrow> string \<Rightarrow> nat \<Rightarrow> world \<Rightarrow> (error + unit) \<times> world" where
  "transcode_one ev items bitrate file idx w =
     (if length items \<le> idx then (Inl IndexError, w)
      else
        let item = items ! idx
        in if channels (flac_obj item) > 2
           then (Inl (ChannelCount (src item) (channels (flac_obj item))), w)
           else
             let w1 = secho (''Encoding: '' @ dst item) w
             in (case flac_to_mp3 ev bitrate (src item) (dst item) w1 of
                   (Inl e, w2) \<Rightarrow> (Inl e, w2)
                 | (Inr u, w2) \<Rightarrow> copy_tags (tags item) (flac_obj item) (dst item) w2))"

text \<open>
  Modelled from the spec: \<open>process_files\<close> of \<open>salmon/common/files.py\<close>, the batch runner,
  is not among the sources. It runs the unit of work for every key, in the order of the
  list and with the key's index; a failure of one item does not stop the others, and the
  failures are reported together once all items have run. The tasks run one after
  another here.
\<close>

fun process_files ::
  "(string \<Rightarrow> nat \<Rightarrow> world \<Rightarrow> (error + unit) \<times> world) \<Rightarrow> string list \<Rightarrow> nat \<Rightarrow> world
     \<Rightarrow> error list \<times> world" where
  "process_files work [] idx w = ([], w)"
| "process_files work (file # rest) idx w =
     (let (r, w1) = work file idx w;
          (errs, w2) = process_files work rest (Suc idx) w1
      in ((case r of Inl e \<Rightarrow> [e] | Inr u \<Rightarrow> []) @ errs, w2))"

definition transcode_audio_files ::
  "env \<Rightarrow> transcode_item list \<Rightarrow> string \<Rightarrow> world \<Rightarrow> (error + unit) \<times> world" where
  "transcode_audio_files ev items bitrate w =
     (if items = [] then (Inr (), w)
      else
        let (errs, w1) = process_files (transcode_one ev items bitrate) (map src items) 0 w
        in if errs = [] then (Inr (), w1) else (Inl (BatchFailed errs), w1))"

section \<open>Top-level operation\<close>

definition transcode_folder :: "env \<Rightarrow> string \<Rightarrow> string \<Rightarrow> world \<Rightarrow> (error + string) \<times> world" where
  "transcode_folder ev path bitrate w =
     (case validate_lossless path w of
        (Inl e, w1) \<Rightarrow> (Inl e, w1)
      | (Inr u, w1) \<Rightarrow>
          let new_path = build_output_path path bitrate
          in if is_dir w1 (parts new_path)
             then (Inr new_path, secho (new_path @ '' already exists.'') w1)
             else
               (case collect_transcode_items (set_rank ev) path new_path w1 of
                  Inl e \<Rightarrow> (Inl e, w1)
                | Inr items \<Rightarrow>
                    (case copy_extra_files path new_path w1 of
                       (Inl e, w2) \<Rightarrow> (Inl e, w2)
                     | (Inr u, w2) \<Rightarrow>
                         (case transcode_audio_files ev items bitrate w2 of
                            (Inl e, w3) \<Rightarrow> (Inl e, w3)
                          | (Inr u, w3) \<Rightarrow> (Inr new_path, w3)))))"

section \<open>Description generator\<close>

definition generate_transcode_description :: "string \<Rightarrow> string \<Rightarrow> error + string" where
  "generate_transcode_description url bitrate =
     (case map_of
             [(''320'', ''-h -b 320 --ignore-tag-errors''),
              (''V0'', ''-V 0 --vbr-new --ignore-tag-errors'')] bitrate of
        None \<Rightarrow> Inl (KeyError bitrate)
      | Some lame_command \<Rightarrow>
          Inr (''[b]Source:[/b] '' @ url @ [newline]
               @ ''[b]Transcode process:[/b] ''
               @ ''[code]flac -dcs -- input.flac | lame -S '' @ lame_command
               @ '' - output.mp3[/code]'' @ [newline]))"

text \<open>The keys the two merge groups read and write.\<close>

definition group_keys :: "string set" where
  "group_keys = {''tracknumber'', ''tracktotal'', ''totaltracks'', ''total tracks'',
                 ''discnumber'', ''disctotal'', ''totaldiscs'', ''total discs''}"

section \<open>A sample album\<close>

text \<open>
  A source folder \<open>/m/A\<close> with one stereo track, one track whose extension is in capitals,
  and a cover image; a decoder and an encoder that succeed (the decoder writes the file
  named after \<open>-o\<close>, the encoder writes an MP3 without tags to its last argument); and a
  decoder that fails with exit code 1 and a diagnostic. In both environments sets are
  iterated in the order of \<open>_TOT_MAP\<close> (all ranks are equal and the sort is stable).
\<close>

definition sample_flac :: flac where
  "sample_flac =
     \<lparr>channels = 2,
      pictures = [\<lparr>mime = ''image/png'', ptype = 3, desc = ''front'', pdata = ''PNG''\<rparr>],
      vtags = VComment [(''tracknumber'', [''3'']), (''tracktotal'', [''12'']),
                        (''mood'', [''calm'', ''slow''])]\<rparr>"

definition sample_world :: world where
  "sample_world =
     \<lparr>dirs = [[''m''], [''m'', ''A'']],
      files = [([''m'', ''A'', ''01.flac''], Flac sample_flac),
               ([''m'', ''A'', ''02.FLAC''], Flac sample_flac),
               ([''m'', ''A'', ''cover.JPG''], Data ''JFIF'')],
      spawned = [], console = []\<rparr>"

definition sample_env :: env where
  "sample_env =
     \<lparr>run = (\<lambda>cmd w.
        if hd cmd = ''flac''
        then (Inr (0, []), write_file (parts (cmd ! 3)) (Data ''RIFF'') w)
        else (Inr (0, []),
              write_file (parts (last cmd)) (Mp3 \<lparr>id3 = None, save_args = None\<rparr>) w)),
      mktemp = (\<lambda>w. ''/tmp/tmp0.wav''),
      set_rank = (\<lambda>k. 0)\<rparr>"

definition failing_decoder :: env where
  "failing_decoder =
     \<lparr>run = (\<lambda>cmd w. (Inr (1, ''corrupt stream''), w)),
      mktemp = (\<lambda>w. ''/tmp/tmp0.wav''),
      set_rank = (\<lambda>k. 0)\<rparr>"

section \<open>Facts about dictionaries and the merge step\<close>

lemma keys_dict_set: "keys (dict_set k v d) = insert k (keys d)"
  by (induction d) (auto simp: keys_def)

lemma map_of_dict_set: "map_of (dict_set k v d) k' = (if k' = k then Some v else map_of d k')"
  by (induction d) auto

lemma map_of_filter_key:
  "map_of (filter (\<lambda>kv. P (fst kv)) d) k = (if P k then map_of d k else None)"
  by (induction d) auto

lemma getitem_Inr: "getitem d k = Inr v \<Longrightarrow> k \<in> keys d"
  by (auto simp: getitem_def keys_def split: option.splits dest: map_of_SomeD intro: rev_image_eqI)

lemma set_used_totals: "set (used_totals rank tots d) = set tots \<inter> keys d"
  by (auto simp: used_totals_def keys_def)

lemma keys_without_keys: "keys (without_keys used d) = keys d - set used"
  by (auto simp: without_keys_def keys_def)

lemma map_of_without_keys:
  "map_of (without_keys used d) k = (if k \<in> set used then None else map_of d k)"
  unfolding without_keys_def by (subst map_of_filter_key) simp

lemma merge_totals_absent: "tag \<notin> keys d \<Longrightarrow> merge_totals rank tag tots d = Inr d"
  by (simp add: merge_totals_def keys_def)

lemma merge_totals_Inr:
  assumes "merge_totals rank tag tots d = Inr r"
  shows "r = d \<and> (tag \<notin> keys d \<or> used_totals rank tots d = [])
         \<or> (\<exists>v. tag \<in> keys d \<and> used_totals rank tots d \<noteq> []
                \<and> tag \<in> keys (without_keys (used_totals rank tots d) d)
                \<and> r = dict_set tag v (without_keys (used_totals rank tots d) d))"
  using assms
  by (auto simp: merge_totals_def Let_def keys_def[symmetric] dest: getitem_Inr
           split: if_splits sum.splits)

lemma merge_totals_keys:
  assumes "merge_totals rank tag tots d = Inr r"
  shows "keys r = (if tag \<in> keys d then keys d - set tots else keys d)"
proof -
  have e: "used_totals rank tots d = [] \<Longrightarrow> x \<in> keys d \<Longrightarrow> x \<notin> set tots" for x
    using set_used_totals[of rank tots d] by auto
  from merge_totals_Inr[OF assms] show ?thesis
    by (auto simp: keys_dict_set keys_without_keys set_used_totals dest: e)
qed

lemma merge_totals_other:
  assumes "merge_totals rank tag tots d = Inr r" "k \<noteq> tag" "k \<notin> set tots"
  shows "map_of r k = map_of d k"
  using merge_totals_Inr[OF assms(1)] assms(2,3)
  by (auto simp: map_of_dict_set map_of_without_keys set_used_totals)


lemma merge_all_TOT_MAP:
  "merge_all rank TOT_MAP d =
     (case merge_totals rank ''tracknumber'' [''tracktotal'', ''totaltracks'', ''total tracks''] d of
        Inl e \<Rightarrow> Inl e
      | Inr d1 \<Rightarrow> merge_totals rank ''discnumber'' [''disctotal'', ''totaldiscs'', ''total discs''] d1)"
  by (simp add: TOT_MAP_def split: sum.splits)

lemma keys_wanted_tags:
  "keys (wanted_tags tgs) = {k \<in> keys tgs. \<not> prefix ''replaygain'' k \<and> k \<noteq> ''encoder''}"
  by (auto simp: wanted_tags_def keys_def FLAC_TAGS_NOT_TO_COPY_def)

lemma map_of_wanted_tags:
  "map_of (wanted_tags tgs) k =
     (if \<not> prefix ''replaygain'' k \<and> k \<noteq> ''encoder'' then map_of tgs k else None)"
  unfolding wanted_tags_def by (subst map_of_filter_key) (simp add: FLAC_TAGS_NOT_TO_COPY_def)

lemma prepare_tags_group:
  assumes "prepare_tags rank tgs = Inr r" and "(tag, tots) \<in> set TOT_MAP" and "t \<in> set tots"
  shows "(tag \<in> keys tgs \<longrightarrow> t \<notin> keys r) \<and> (tag \<notin> keys tgs \<longrightarrow> map_of r t = map_of tgs t)"
proof -
  let ?tt = "[''tracktotal'', ''totaltracks'', ''total tracks'']"
  let ?dt = "[''disctotal'', ''totaldiscs'', ''total discs'']"
  from assms(1) obtain d1 where
    m1: "merge_totals rank ''tracknumber'' ?tt (wanted_tags tgs) = Inr d1" and
    m2: "merge_totals rank ''discnumber'' ?dt d1 = Inr r"
    by (auto simp: prepare_tags_def merge_all_TOT_MAP split: sum.splits)
  note k1 = merge_totals_keys[OF m1] and k2 = merge_totals_keys[OF m2]
  from assms(2) consider "tag = ''tracknumber''" "tots = ?tt" | "tag = ''discnumber''" "tots = ?dt"
    by (auto simp: TOT_MAP_def)
  then show ?thesis
  proof cases
    case 1
    have a: "tag \<in> keys tgs \<Longrightarrow> t \<notin> keys r"
      using 1 assms(3) k1 k2 by (auto simp: keys_wanted_tags split: if_splits)
    have b: "map_of r t = map_of tgs t" if "tag \<notin> keys tgs"
    proof -
      from that 1 have "''tracknumber'' \<notin> keys (wanted_tags tgs)" by (simp add: keys_wanted_tags)
      with m1 have "d1 = wanted_tags tgs" by (simp add: merge_totals_absent)
      moreover have "map_of r t = map_of d1 t"
        using 1 assms(3) by (intro merge_totals_other[OF m2]) auto
      moreover have "map_of (wanted_tags tgs) t = map_of tgs t"
        using 1 assms(3) by (auto simp: map_of_wanted_tags)
      ultimately show ?thesis by simp
    qed
    from a b show ?thesis by blast
  next
    case 2
    have a: "tag \<in> keys tgs \<Longrightarrow> t \<notin> keys r"
      using 2 assms(3) k1 k2 by (auto simp: keys_wanted_tags split: if_splits)
    have b: "map_of r t = map_of tgs t" if "tag \<notin> keys tgs"
    proof -
      from that 2 have "''discnumber'' \<notin> keys (wanted_tags tgs)" by (simp add: keys_wanted_tags)
      with k1 have "''discnumber'' \<notin> keys d1" by (auto split: if_splits)
      with m2 have "r = d1" by (simp add: merge_totals_absent)
      moreover have "map_of d1 t = map_of (wanted_tags tgs) t"
        using 2 assms(3) by (intro merge_totals_other[OF m1]) auto
      moreover have "map_of (wanted_tags tgs) t = map_of tgs t"
        using 2 assms(3) by (auto simp: map_of_wanted_tags)
      ultimately show ?thesis by simp
    qed
    from a b show ?thesis by blast
  qed
qed




lemma keys_map_of: "k \<in> keys d \<longleftrightarrow> map_of d k \<noteq> None"
  by (simp add: keys_def map_of_eq_None_iff)

lemma used_totals_map_of:
  "used_totals rank tots d = sort_key rank (filter (\<lambda>t. map_of d t \<noteq> None) tots)"
proof -
  have "filter (\<lambda>t. t \<in> set (map fst d)) tots = filter (\<lambda>t. map_of d t \<noteq> None) tots"
    by (rule filter_cong) (simp_all add: map_of_eq_None_iff)
  then show ?thesis by (simp add: used_totals_def)
qed

lemma used_totals_member:
  "s \<in> set (used_totals rank tots d) \<longleftrightarrow> s \<in> set tots \<and> map_of d s \<noteq> None"
  by (simp add: used_totals_map_of)

lemma parse_totals_Inr:
  assumes "\<forall>s \<in> set us. \<exists>v vs. map_of d s = Some (v # vs) \<and> py_int v = Some (tot s)"
  shows "parse_totals d us = Inr (map tot us)"
  using assms
  by (induction us) (auto simp: parse_total_def getitem_def first_def)

lemma remdups_all_eq:
  assumes "xs \<noteq> []" and "\<forall>x \<in> set xs. x = t"
  shows "remdups xs = [t]"
proof -
  from assms have s: "set xs = {t}" by (cases xs) auto
  then have "card (set xs) = 1" by simp
  then have "length (remdups xs) = 1" by (simp add: length_remdups_card_conv)
  then obtain y where y: "remdups xs = [y]" by (cases "remdups xs") auto
  then have "set (remdups xs) = {y}" by simp
  with s have "y = t" by simp
  with y show ?thesis by simp
qed

lemma remdups_two: "a \<in> set xs \<Longrightarrow> b \<in> set xs \<Longrightarrow> a \<noteq> b \<Longrightarrow> length (remdups xs) \<noteq> 1"
proof -
  assume h: "a \<in> set xs" "b \<in> set xs" "a \<noteq> b"
  then have "{a, b} \<subseteq> set xs" by simp
  then have "card {a, b} \<le> card (set xs)" by (intro card_mono) auto
  with h(3) have "2 \<le> card (set xs)" by simp
  then show ?thesis by (simp add: length_remdups_card_conv)
qed

lemma merge_totals_merge:
  assumes prim: "map_of d tag = Some (nr # rest)"
    and nt: "tag \<notin> set tots"
    and some: "s0 \<in> set tots" "map_of d s0 \<noteq> None"
    and agree: "\<forall>s \<in> set tots. map_of d s \<noteq> None \<longrightarrow>
                 (\<exists>v vs. map_of d s = Some (v # vs) \<and> py_int v = Some t)"
  shows "merge_totals rank tag tots d =
           Inr (dict_set tag [nr @ ''/'' @ py_str t] (without_keys (used_totals rank tots d) d))"
proof -
  let ?u = "used_totals rank tots d"
  have "s0 \<in> set ?u" using some by (simp add: used_totals_member)
  then have u: "?u \<noteq> []" by auto
  have "\<forall>s \<in> set ?u. \<exists>v vs. map_of d s = Some (v # vs) \<and> py_int v = Some ((\<lambda>_. t) s)"
    using agree by (auto simp: used_totals_member)
  then have p: "parse_totals d ?u = Inr (map (\<lambda>_. t) ?u)" by (rule parse_totals_Inr)
  have r: "remdups (map (\<lambda>_. t) ?u) = [t]" using u by (intro remdups_all_eq) auto
  have "tag \<notin> set ?u" using nt by (simp add: used_totals_member)
  then have g: "getitem (without_keys ?u d) tag = Inr (nr # rest)"
    using prim by (simp add: getitem_def map_of_without_keys)
  have k: "tag \<in> set (map fst d)" using prim keys_map_of[of tag d] by (simp add: keys_def)
  show ?thesis
    unfolding merge_totals_def Let_def using u k by (simp add: p r g first_def)
qed

lemma merge_totals_conflict:
  assumes prim: "map_of d tag \<noteq> None"
    and parse: "\<forall>s \<in> set tots. map_of d s \<noteq> None \<longrightarrow>
                 (\<exists>v vs. map_of d s = Some (v # vs) \<and> py_int v = Some (tot s))"
    and two: "s1 \<in> set tots" "map_of d s1 \<noteq> None" "s2 \<in> set tots" "map_of d s2 \<noteq> None"
             "tot s1 \<noteq> tot s2"
  shows "merge_totals rank tag tots d = Inl (ConflictingTotals (used_totals rank tots d))"
proof -
  let ?u = "used_totals rank tots d"
  have m: "s1 \<in> set ?u" "s2 \<in> set ?u" using two by (simp_all add: used_totals_member)
  then have u: "?u \<noteq> []" by auto
  have "\<forall>s \<in> set ?u. \<exists>v vs. map_of d s = Some (v # vs) \<and> py_int v = Some (tot s)"
    using parse by (auto simp: used_totals_member)
  then have p: "parse_totals d ?u = Inr (map tot ?u)" by (rule parse_totals_Inr)
  have r: "length (remdups (map tot ?u)) \<noteq> 1"
    using m two(5) by (intro remdups_two[of "tot s1" _ "tot s2"]) auto
  have k: "tag \<in> set (map fst d)" using prim keys_map_of[of tag d] by (simp add: keys_def)
  show ?thesis
    unfolding merge_totals_def Let_def using u k r by (simp add: p)
qed

lemma merge_totals_quiet:
  assumes "map_of d tag = None \<or> (\<forall>s \<in> set tots. map_of d s = None)"
  shows "merge_totals rank tag tots d = Inr d"
proof -
  have "used_totals rank tots d = []" if "\<forall>s \<in> set tots. map_of d s = None"
  proof -
    from that have "filter (\<lambda>t. map_of d t \<noteq> None) tots = []"
      by (simp add: filter_empty_conv)
    then show ?thesis by (simp add: used_totals_map_of)
  qed
  with assms have "tag \<notin> set (map fst d) \<or> used_totals rank tots d = []"
    using keys_map_of[of tag d] by (auto simp: keys_def)
  then show ?thesis by (auto simp: merge_totals_def)
qed




lemma map_of_wanted_group: "k \<in> group_keys \<Longrightarrow> map_of (wanted_tags tgs) k = map_of tgs k"
  by (auto simp: group_keys_def map_of_wanted_tags)

lemma used_totals_cong:
  assumes "\<And>s. s \<in> set tots \<Longrightarrow> map_of d s = map_of d' s"
  shows "used_totals rank tots d = used_totals rank tots d'"
proof -
  have "filter (\<lambda>t. map_of d t \<noteq> None) tots = filter (\<lambda>t. map_of d' t \<noteq> None) tots"
    by (rule filter_cong) (simp_all add: assms)
  then show ?thesis by (simp add: used_totals_map_of)
qed

lemma merge_totals_passes:
  assumes ok: "map_of d tag \<noteq> None \<and> (\<exists>s \<in> set tots. map_of d s \<noteq> None) \<longrightarrow>
                (\<exists>nr rest t. map_of d tag = Some (nr # rest) \<and>
                   (\<forall>s \<in> set tots. map_of d s \<noteq> None \<longrightarrow>
                      (\<exists>v vs. map_of d s = Some (v # vs) \<and> py_int v = Some t)))"
    and nt: "tag \<notin> set tots"
  shows "\<exists>r. merge_totals rank tag tots d = Inr r"
proof (cases "map_of d tag \<noteq> None \<and> (\<exists>s \<in> set tots. map_of d s \<noteq> None)")
  case False
  then have "merge_totals rank tag tots d = Inr d" by (intro merge_totals_quiet) auto
  then show ?thesis by blast
next
  case True
  with ok obtain nr rest t s0 where
    "map_of d tag = Some (nr # rest)" "s0 \<in> set tots" "map_of d s0 \<noteq> None"
    "\<forall>s \<in> set tots. map_of d s \<noteq> None \<longrightarrow>
       (\<exists>v vs. map_of d s = Some (v # vs) \<and> py_int v = Some t)"
    by blast
  from merge_totals_merge[OF this(1) nt this(2,3,4)] show ?thesis by blast
qed


lemma track_merge:
  fixes d :: tagdict
  defines "tt \<equiv> [''tracktotal'', ''totaltracks'', ''total tracks'']"
    and "dt \<equiv> [''disctotal'', ''totaldiscs'', ''total discs'']"
  assumes prim: "map_of d ''tracknumber'' = Some (nr # rest)"
    and some: "s0 \<in> set tt" "map_of d s0 \<noteq> None"
    and agree: "\<forall>s \<in> set tt. map_of d s \<noteq> None \<longrightarrow>
                 (\<exists>v vs. map_of d s = Some (v # vs) \<and> py_int v = Some t)"
    and ok: "map_of d ''discnumber'' \<noteq> None \<and> (\<exists>s \<in> set dt. map_of d s \<noteq> None) \<longrightarrow>
                (\<exists>nr rest t. map_of d ''discnumber'' = Some (nr # rest) \<and>
                   (\<forall>s \<in> set dt. map_of d s \<noteq> None \<longrightarrow>
                      (\<exists>v vs. map_of d s = Some (v # vs) \<and> py_int v = Some t)))"
  shows "\<exists>r. merge_all rank TOT_MAP d = Inr r \<and>
             map_of r ''tracknumber'' = Some [nr @ ''/'' @ py_str t] \<and>
             (\<forall>s \<in> set tt. s \<notin> keys r)"
proof -
  define d1 where "d1 = dict_set ''tracknumber'' [nr @ ''/'' @ py_str t] (without_keys (used_totals rank tt d) d)"
  have nt: "''tracknumber'' \<notin> set tt" by (simp add: tt_def)
  have m1: "merge_totals rank ''tracknumber'' tt d = Inr d1"
    unfolding d1_def by (rule merge_totals_merge[OF prim nt some agree])
  have same: "map_of d1 k = map_of d k" if "k = ''discnumber'' \<or> k \<in> set dt" for k
    using that by (intro merge_totals_other[OF m1]) (auto simp: tt_def dt_def)
  have "\<exists>r. merge_totals rank ''discnumber'' dt d1 = Inr r"
  proof (rule merge_totals_passes)
    show "''discnumber'' \<notin> set dt" by (simp add: dt_def)
    show "map_of d1 ''discnumber'' \<noteq> None \<and> (\<exists>s \<in> set dt. map_of d1 s \<noteq> None) \<longrightarrow>
                (\<exists>nr rest t. map_of d1 ''discnumber'' = Some (nr # rest) \<and>
                   (\<forall>s \<in> set dt. map_of d1 s \<noteq> None \<longrightarrow>
                      (\<exists>v vs. map_of d1 s = Some (v # vs) \<and> py_int v = Some t)))"
      using ok by (simp add: same)
  qed
  then obtain r where m2: "merge_totals rank ''discnumber'' dt d1 = Inr r" by blast
  have "map_of r ''tracknumber'' = map_of d1 ''tracknumber''"
    by (intro merge_totals_other[OF m2]) (auto simp: dt_def)
  then have a: "map_of r ''tracknumber'' = Some [nr @ ''/'' @ py_str t]"
    by (simp add: d1_def map_of_dict_set)
  have "''tracknumber'' \<in> keys d" using prim by (simp add: keys_map_of)
  with merge_totals_keys[OF m1] have "keys d1 = keys d - set tt" by simp
  moreover from merge_totals_keys[OF m2] have "keys r \<subseteq> keys d1" by (auto split: if_splits)
  ultimately have b: "\<forall>s \<in> set tt. s \<notin> keys r" by auto
  have "merge_all rank TOT_MAP d = Inr r"
    using m1 m2 by (simp add: merge_all_TOT_MAP tt_def dt_def)
  with a b show ?thesis by blast
qed

lemma track_conflict:
  fixes d :: tagdict
  defines "tt \<equiv> [''tracktotal'', ''totaltracks'', ''total tracks'']"
  assumes prim: "map_of d ''tracknumber'' \<noteq> None"
    and parse: "\<forall>s \<in> set tt. map_of d s \<noteq> None \<longrightarrow>
                 (\<exists>v vs. map_of d s = Some (v # vs) \<and> py_int v = Some (tot s))"
    and two: "s1 \<in> set tt" "map_of d s1 \<noteq> None" "s2 \<in> set tt" "map_of d s2 \<noteq> None"
             "tot s1 \<noteq> tot s2"
  shows "merge_all rank TOT_MAP d = Inl (ConflictingTotals (used_totals rank tt d))"
proof -
  have "merge_totals rank ''tracknumber'' tt d = Inl (ConflictingTotals (used_totals rank tt d))"
    by (rule merge_totals_conflict[OF prim parse two])
  then show ?thesis by (simp add: merge_all_TOT_MAP tt_def)
qed

lemma disc_step:
  fixes d :: tagdict
  defines "tt \<equiv> [''tracktotal'', ''totaltracks'', ''total tracks'']"
    and "dt \<equiv> [''disctotal'', ''totaldiscs'', ''total discs'']"
  assumes ok: "map_of d ''tracknumber'' \<noteq> None \<and> (\<exists>s \<in> set tt. map_of d s \<noteq> None) \<longrightarrow>
                (\<exists>nr rest t. map_of d ''tracknumber'' = Some (nr # rest) \<and>
                   (\<forall>s \<in> set tt. map_of d s \<noteq> None \<longrightarrow>
                      (\<exists>v vs. map_of d s = Some (v # vs) \<and> py_int v = Some t)))"
  shows "\<exists>d1. merge_all rank TOT_MAP d = merge_totals rank ''discnumber'' dt d1 \<and>
              (\<forall>k. k = ''discnumber'' \<or> k \<in> set dt \<longrightarrow> map_of d1 k = map_of d k)"
proof -
  have "\<exists>r. merge_totals rank ''tracknumber'' tt d = Inr r"
    using ok by (intro merge_totals_passes) (auto simp: tt_def)
  then obtain d1 where m1: "merge_totals rank ''tracknumber'' tt d = Inr d1" by blast
  have same: "map_of d1 k = map_of d k" if "k = ''discnumber'' \<or> k \<in> set dt" for k
    using that by (intro merge_totals_other[OF m1]) (auto simp: tt_def dt_def)
  have "merge_all rank TOT_MAP d = merge_totals rank ''discnumber'' dt d1"
    using m1 by (simp add: merge_all_TOT_MAP tt_def dt_def)
  with same show ?thesis by blast
qed



lemma disc_merge:
  fixes d :: tagdict
  defines "tt \<equiv> [''tracktotal'', ''totaltracks'', ''total tracks'']"
    and "dt \<equiv> [''disctotal'', ''totaldiscs'', ''total discs'']"
  assumes prim: "map_of d ''discnumber'' = Some (nr # rest)"
    and some: "s0 \<in> set dt" "map_of d s0 \<noteq> None"
    and agree: "\<forall>s \<in> set dt. map_of d s \<noteq> None \<longrightarrow>
                 (\<exists>v vs. map_of d s = Some (v # vs) \<and> py_int v = Some t)"
    and ok: "map_of d ''tracknumber'' \<noteq> None \<and> (\<exists>s \<in> set tt. map_of d s \<noteq> None) \<longrightarrow>
                (\<exists>nr rest t. map_of d ''tracknumber'' = Some (nr # rest) \<and>
                   (\<forall>s \<in> set tt. map_of d s \<noteq> None \<longrightarrow>
                      (\<exists>v vs. map_of d s = Some (v # vs) \<and> py_int v = Some t)))"
  shows "\<exists>r. merge_all rank TOT_MAP d = Inr r \<and>
             map_of r ''discnumber'' = Some [nr @ ''/'' @ py_str t] \<and>
             (\<forall>s \<in> set dt. s \<notin> keys r)"
proof -
  from disc_step[OF ok[unfolded tt_def]] obtain d1 where
    run: "merge_all rank TOT_MAP d = merge_totals rank ''discnumber'' dt d1" and
    same: "\<And>k. k = ''discnumber'' \<or> k \<in> set dt \<Longrightarrow> map_of d1 k = map_of d k"
    unfolding dt_def by blast
  define r where "r = dict_set ''discnumber'' [nr @ ''/'' @ py_str t] (without_keys (used_totals rank dt d1) d1)"
  have nt: "''discnumber'' \<notin> set dt" by (simp add: dt_def)
  have p1: "map_of d1 ''discnumber'' = Some (nr # rest)" using prim by (simp add: same)
  have p2: "map_of d1 s0 \<noteq> None" using some by (simp add: same)
  have p3: "\<forall>s \<in> set dt. map_of d1 s \<noteq> None \<longrightarrow>
                 (\<exists>v vs. map_of d1 s = Some (v # vs) \<and> py_int v = Some t)"
    using agree by (simp add: same)
  have m2: "merge_totals rank ''discnumber'' dt d1 = Inr r"
    unfolding r_def by (rule merge_totals_merge[OF p1 nt some(1) p2 p3])
  have a: "map_of r ''discnumber'' = Some [nr @ ''/'' @ py_str t]"
    by (simp add: r_def map_of_dict_set)
  have "''discnumber'' \<in> keys d1" using p1 by (simp add: keys_map_of)
  with merge_totals_keys[OF m2] have "keys r = keys d1 - set dt" by simp
  then have b: "\<forall>s \<in> set dt. s \<notin> keys r" by auto
  from run m2 a b show ?thesis by simp
qed

lemma disc_conflict:
  fixes d :: tagdict
  defines "tt \<equiv> [''tracktotal'', ''totaltracks'', ''total tracks'']"
    and "dt \<equiv> [''disctotal'', ''totaldiscs'', ''total discs'']"
  assumes prim: "map_of d ''discnumber'' \<noteq> None"
    and parse: "\<forall>s \<in> set dt. map_of d s \<noteq> None \<longrightarrow>
                 (\<exists>v vs. map_of d s = Some (v # vs) \<and> py_int v = Some (tot s))"
    and two: "s1 \<in> set dt" "map_of d s1 \<noteq> None" "s2 \<in> set dt" "map_of d s2 \<noteq> None"
             "tot s1 \<noteq> tot s2"
    and ok: "map_of d ''tracknumber'' \<noteq> None \<and> (\<exists>s \<in> set tt. map_of d s \<noteq> None) \<longrightarrow>
                (\<exists>nr rest t. map_of d ''tracknumber'' = Some (nr # rest) \<and>
                   (\<forall>s \<in> set tt. map_of d s \<noteq> None \<longrightarrow>
                      (\<exists>v vs. map_of d s = Some (v # vs) \<and> py_int v = Some t)))"
  shows "merge_all rank TOT_MAP d = Inl (ConflictingTotals (used_totals rank dt d))"
proof -
  from disc_step[OF ok[unfolded tt_def]] obtain d1 where
    run: "merge_all rank TOT_MAP d = merge_totals rank ''discnumber'' dt d1" and
    same: "\<And>k. k = ''discnumber'' \<or> k \<in> set dt \<Longrightarrow> map_of d1 k = map_of d k"
    unfolding dt_def by blast
  have p1: "map_of d1 ''discnumber'' \<noteq> None" using prim by (simp add: same)
  have p2: "map_of d1 s1 \<noteq> None" "map_of d1 s2 \<noteq> None" using two by (simp_all add: same)
  have p3: "\<forall>s \<in> set dt. map_of d1 s \<noteq> None \<longrightarrow>
                 (\<exists>v vs. map_of d1 s = Some (v # vs) \<and> py_int v = Some (tot s))"
    using parse by (simp add: same)
  have "merge_totals rank ''discnumber'' dt d1 = Inl (ConflictingTotals (used_totals rank dt d1))"
    by (rule merge_totals_conflict[OF p1 p3 two(1) p2(1) two(3) p2(2) two(5)])
  moreover have "used_totals rank dt d1 = used_totals rank dt d"
    by (rule used_totals_cong) (simp add: same)
  ultimately show ?thesis using run by simp
qed

lemma used_totals_wanted:
  "set tots \<subseteq> group_keys \<Longrightarrow> used_totals rank tots (wanted_tags tgs) = used_totals rank tots tgs"
  by (rule used_totals_cong) (auto simp: map_of_wanted_group)


lemma prepare_tags_keys_subset:
  assumes "prepare_tags rank tgs = Inr r"
  shows "keys r \<subseteq> keys tgs"
proof -
  from assms obtain d1 where
    m1: "merge_totals rank ''tracknumber'' [''tracktotal'', ''totaltracks'', ''total tracks''] (wanted_tags tgs) = Inr d1" and
    m2: "merge_totals rank ''discnumber'' [''disctotal'', ''totaldiscs'', ''total discs''] d1 = Inr r"
    by (auto simp: prepare_tags_def merge_all_TOT_MAP split: sum.splits)
  from merge_totals_keys[OF m1] have "keys d1 \<subseteq> keys (wanted_tags tgs)" by (auto split: if_splits)
  moreover from merge_totals_keys[OF m2] have "keys r \<subseteq> keys d1" by (auto split: if_splits)
  moreover have "keys (wanted_tags tgs) \<subseteq> keys tgs" by (auto simp: keys_wanted_tags)
  ultimately show ?thesis by blast
qed

lemma collect_loop_tags:
  "collect_loop rank sr sp dr dp w es = Inr items \<Longrightarrow> it \<in> set items
     \<Longrightarrow> \<exists>d. prepare_tags rank d = Inr (tags it)"
proof (induction es arbitrary: items)
  case Nil
  then show ?case by simp
next
  case (Cons e es)
  from Cons.prems(1) obtain fl tag_dict rest where
    p: "parse_flac_tags rank (str_path sr e) e w = Inr (fl, tag_dict)" and
    r: "collect_loop rank sr sp dr dp w es = Inr rest" and
    i: "items = \<lparr>src = str_path sr e, dst = str_path dr (rebase_mp3 sp dp e),
                  flac_obj = fl, tags = tag_dict\<rparr> # rest"
    by (auto split: sum.splits prod.splits)
  from p obtain d where "prepare_tags rank d = Inr tag_dict"
    by (auto simp: parse_flac_tags_def split: option.splits content.splits tagblock.splits sum.splits)
  with Cons.IH[OF r] Cons.prems(2) i show ?case by auto
qed

section \<open>Path Namer: the bracketed cases\<close>

text \<open>
  C1. For the folder \<open>Artist - Album [FLAC]\<close> and the label \<open>V0\<close> the specification
  expects the destination \<open>Artist - Album [MP3 V0]\<close> in the same parent directory. The pattern
  \<open>\[FLAC.*\]\<close> matches the whole bracket token, brackets included, and the replacement
  \<open>MP3 V0\<close> has none: the code returns \<open>Artist - Album MP3 V0\<close>.
\<close>

theorem C1_flac_bracket_loses_brackets:
  "build_output_path ''/music/Artist - Album [FLAC]'' ''V0'' = ''/music/Artist - Album MP3 V0''"
  by code_simp

text \<open>
  C2. For the folder \<open>Artist - Album [FLAC Lossless]\<close> and the label \<open>320\<close> the
  specification expects \<open>Artist - Album [MP3 320]\<close>. The first substitution replaces the whole token
  \<open>[FLAC Lossless]\<close> by \<open>MP3\<close>, so the second one finds no \<open>Lossless\<close> left to replace
  by the label: the code returns \<open>Artist - Album MP3\<close>, for \<open>320\<close> as for \<open>V0\<close>.
\<close>

theorem C2_flac_lossless_bracket_loses_label:
  "build_output_path ''/music/Artist - Album [FLAC Lossless]'' ''320'' = ''/music/Artist - Album MP3''
   \<and> build_output_path ''/music/Artist - Album [FLAC Lossless]'' ''V0'' = ''/music/Artist - Album MP3''"
  by code_simp

section \<open>Tag Normalizer: the total keys\<close>

text \<open>
  C3. The specification states that no total-synonym key is left in the tags of an item,
  also when the primary key is absent. The loop skips a group whose primary key is absent
  (\<open>if tag not in result: continue\<close>), so a lone \<open>tracktotal\<close> stays.
\<close>

theorem C3_lone_total_key_stays:
  "prepare_tags (set_rank sample_env) [(''tracktotal'', [''12''])] = Inr [(''tracktotal'', [''12''])]
   \<and> ''tracktotal'' \<in> keys [(''tracktotal'', [''12''])]"
proof -
  have "prepare_tags (set_rank sample_env) [(''tracktotal'', [''12''])] = Inr [(''tracktotal'', [''12''])]"
    by code_simp
  then show ?thesis by (simp add: keys_def)
qed

text \<open>
  C3, amended. For every merge group and every synonym key \<open>t\<close> of it: when
  \<open>_prepare_tags\<close> returns, \<open>t\<close> is not a key of the result if the group's primary key is a
  key of the input, and \<open>t\<close> keeps its value if the primary key is absent. Hence in every
  item the collector builds, tags that hold a primary key hold none of its synonyms.
\<close>

theorem C3_totals_removed_when_primary_present:
  assumes "(tag, tots) \<in> set TOT_MAP" and "t \<in> set tots"
  shows "(prepare_tags rank tgs = Inr r \<longrightarrow>
            (tag \<in> keys tgs \<longrightarrow> t \<notin> keys r) \<and> (tag \<notin> keys tgs \<longrightarrow> map_of r t = map_of tgs t))
       \<and> (collect_transcode_items rank path new_path w = Inr items \<and> it \<in> set items
            \<and> tag \<in> keys (tags it) \<longrightarrow> t \<notin> keys (tags it))"
proof (rule conjI)
  show "prepare_tags rank tgs = Inr r \<longrightarrow>
            (tag \<in> keys tgs \<longrightarrow> t \<notin> keys r) \<and> (tag \<notin> keys tgs \<longrightarrow> map_of r t = map_of tgs t)"
  proof
    assume "prepare_tags rank tgs = Inr r"
    from prepare_tags_group[OF this assms]
    show "(tag \<in> keys tgs \<longrightarrow> t \<notin> keys r) \<and> (tag \<notin> keys tgs \<longrightarrow> map_of r t = map_of tgs t)" .
  qed
next
  show "collect_transcode_items rank path new_path w = Inr items \<and> it \<in> set items
            \<and> tag \<in> keys (tags it) \<longrightarrow> t \<notin> keys (tags it)"
  proof
    assume h: "collect_transcode_items rank path new_path w = Inr items \<and> it \<in> set items
              \<and> tag \<in> keys (tags it)"
    then obtain d where d: "prepare_tags rank d = Inr (tags it)"
      unfolding collect_transcode_items_def using collect_loop_tags by blast
    from prepare_tags_keys_subset[OF d] h have "tag \<in> keys d" by blast
    with prepare_tags_group[OF d assms] show "t \<notin> keys (tags it)" by blast
  qed
qed

theorem C3_totals_removed_witness:
  "prepare_tags (set_rank sample_env) [(''tracknumber'', [''3'']), (''tracktotal'', [''12''])] = Inr [(''tracknumber'', [''3/12''])]
   \<and> ''tracktotal'' \<notin> keys [(''tracknumber'', [''3/12''])]
   \<and> prepare_tags (set_rank sample_env) [(''title'', [''t'']), (''tracktotal'', [''12''])] = Inr [(''title'', [''t'']), (''tracktotal'', [''12''])]
   \<and> map_of [(''title'', [''t'']), (''tracktotal'', [''12''])] ''tracktotal'' = Some [''12'']"
proof -
  have g: "(''tracknumber'', [''tracktotal'', ''totaltracks'', ''total tracks'']) \<in> set TOT_MAP"
    by (simp add: TOT_MAP_def)
  have m: "''tracktotal'' \<in> set [''tracktotal'', ''totaltracks'', ''total tracks'']" by simp
  have e1: "prepare_tags (set_rank sample_env) [(''tracknumber'', [''3'']), (''tracktotal'', [''12''])] = Inr [(''tracknumber'', [''3/12''])]"
    by code_simp
  have e2: "prepare_tags (set_rank sample_env) [(''title'', [''t'']), (''tracktotal'', [''12''])] = Inr [(''title'', [''t'']), (''tracktotal'', [''12''])]"
    by code_simp
  have k1: "''tracknumber'' \<in> keys [(''tracknumber'', [''3'']), (''tracktotal'', [''12''])]"
    by (simp add: keys_def)
  have k2: "''tracknumber'' \<notin> keys [(''title'', [''t'']), (''tracktotal'', [''12''])]"
    by (simp add: keys_def)
  from C3_totals_removed_when_primary_present[OF g m, where rank = "set_rank sample_env"
      and tgs = "[(''tracknumber'', [''3'']), (''tracktotal'', [''12''])]"
      and r = "[(''tracknumber'', [''3/12''])]"] e1 k1
  have a: "''tracktotal'' \<notin> keys [(''tracknumber'', [''3/12''])]" by blast
  from C3_totals_removed_when_primary_present[OF g m, where rank = "set_rank sample_env"
      and tgs = "[(''title'', [''t'']), (''tracktotal'', [''12''])]"
      and r = "[(''title'', [''t'']), (''tracktotal'', [''12''])]"] e2 k2
  have b: "map_of [(''title'', [''t'']), (''tracktotal'', [''12''])] ''tracktotal'' = map_of [(''title'', [''t'']), (''tracktotal'', [''12''])] ''tracktotal''" by blast
  from e1 a e2 show ?thesis by simp
qed

text \<open>
  C4. The specification takes the merge of one group for the outcome of the whole call.
  The groups are processed one after the other and the first failure ends the call: with
  the track totals agreeing and the disc totals in conflict the call raises and returns no
  mapping; and totals that differ between the two groups are no conflict.
\<close>

theorem C4_other_group_decides:
  "isl (prepare_tags (set_rank sample_env)
          [(''tracknumber'', [''3'']), (''tracktotal'', [''12'']),
           (''discnumber'', [''1'']), (''disctotal'', [''2'']), (''totaldiscs'', [''3''])])
   \<and> prepare_tags (set_rank sample_env)
          [(''tracknumber'', [''3'']), (''tracktotal'', [''12'']),
           (''discnumber'', [''1'']), (''disctotal'', [''2''])]
     = Inr [(''tracknumber'', [''3/12'']), (''discnumber'', [''1/2''])]"
  by code_simp

text \<open>
  C4, amended. Take a merge group whose primary key is present and whose present
  synonyms all have a first value that parses, to \<open>tot s\<close>, and any order in which the
  set of the present synonyms is iterated. If at least one synonym is present, all parse
  to the same \<open>t\<close>, the primary key has a first value \<open>nr\<close>, and the other group does not
  fail (it is skipped, or it agrees and its primary key has a first value), then the call
  returns a mapping in which the first value of the primary key is \<open>nr/t\<close> and no synonym
  of the group is left. If two present synonyms parse to different integers and no earlier
  group fails, the call raises the conflict error, which names the present synonyms of the
  group, in the order of the iteration.
\<close>

theorem C4_group_merge_or_conflict:
  fixes tgs :: tagdict and tot :: "string \<Rightarrow> int"
  assumes grp: "(tag, tots) \<in> set TOT_MAP"
    and prim: "tag \<in> keys tgs"
    and parse: "\<forall>s \<in> set tots. s \<in> keys tgs \<longrightarrow>
                  (\<exists>v vs. map_of tgs s = Some (v # vs) \<and> py_int v = Some (tot s))"
  shows "((\<exists>s \<in> set tots. s \<in> keys tgs) \<and> (\<forall>s \<in> set tots. s \<in> keys tgs \<longrightarrow> tot s = t)
            \<and> map_of tgs tag = Some (nr # rest)
            \<and> (\<forall>tag' tots'. (tag', tots') \<in> set TOT_MAP \<and> tag' \<noteq> tag
                  \<and> tag' \<in> keys tgs \<and> (\<exists>s \<in> set tots'. s \<in> keys tgs) \<longrightarrow>
                  (\<exists>nr' rest' t'. map_of tgs tag' = Some (nr' # rest') \<and>
                     (\<forall>s \<in> set tots'. s \<in> keys tgs \<longrightarrow>
                        (\<exists>v vs. map_of tgs s = Some (v # vs) \<and> py_int v = Some t')))) \<longrightarrow>
            (\<exists>r more. prepare_tags rank tgs = Inr r
                  \<and> map_of r tag = Some ((nr @ ''/'' @ py_str t) # more)
                  \<and> (\<forall>s \<in> set tots. s \<notin> keys r)))
       \<and> ((\<exists>s1 \<in> set tots. \<exists>s2 \<in> set tots. s1 \<in> keys tgs \<and> s2 \<in> keys tgs \<and> tot s1 \<noteq> tot s2)
            \<and> (tag = ''discnumber'' \<longrightarrow>
                  (''tracknumber'' \<in> keys tgs
                     \<and> (\<exists>s \<in> set [''tracktotal'', ''totaltracks'', ''total tracks'']. s \<in> keys tgs) \<longrightarrow>
                   (\<exists>nr' rest' t'. map_of tgs ''tracknumber'' = Some (nr' # rest') \<and>
                      (\<forall>s \<in> set [''tracktotal'', ''totaltracks'', ''total tracks'']. s \<in> keys tgs \<longrightarrow>
                         (\<exists>v vs. map_of tgs s = Some (v # vs) \<and> py_int v = Some t'))))) \<longrightarrow>
            prepare_tags rank tgs = Inl (ConflictingTotals (used_totals rank tots tgs))
            \<and> set (used_totals rank tots tgs) = set tots \<inter> keys tgs)"
proof -
  let ?tt = "[''tracktotal'', ''totaltracks'', ''total tracks'']"
  let ?dt = "[''disctotal'', ''totaldiscs'', ''total discs'']"
  let ?d = "wanted_tags tgs"
  have w: "map_of ?d k = map_of tgs k" if "k \<in> group_keys" for k
    using that by (rule map_of_wanted_group)
  have gk: "''tracknumber'' \<in> group_keys" "''discnumber'' \<in> group_keys"
    "set ?tt \<subseteq> group_keys" "set ?dt \<subseteq> group_keys"
    by (simp_all add: group_keys_def)
  have wt: "map_of ?d s = map_of tgs s" if "s \<in> set ?tt" for s using that gk(3) w by blast
  have wd: "map_of ?d s = map_of tgs s" if "s \<in> set ?dt" for s using that gk(4) w by blast
  have ut: "used_totals rank ?tt ?d = used_totals rank ?tt tgs" by (rule used_totals_wanted[OF gk(3)])
  have ud: "used_totals rank ?dt ?d = used_totals rank ?dt tgs" by (rule used_totals_wanted[OF gk(4)])
  from grp consider
    (track) "tag = ''tracknumber''" "tots = ?tt" | (disc) "tag = ''discnumber''" "tots = ?dt"
    by (auto simp: TOT_MAP_def)
  then show ?thesis
  proof cases
    case track
    have parse': "\<forall>s \<in> set ?tt. map_of ?d s \<noteq> None \<longrightarrow>
                 (\<exists>v vs. map_of ?d s = Some (v # vs) \<and> py_int v = Some (tot s))"
      using parse[unfolded keys_map_of track] by (simp add: wt)
    have prim': "map_of ?d ''tracknumber'' \<noteq> None"
      using prim[unfolded keys_map_of track] by (simp add: w gk)
    show ?thesis
    proof (intro conjI impI, goal_cases)
      case 1
      then obtain s0 where s0: "s0 \<in> set ?tt" "map_of ?d s0 \<noteq> None"
        unfolding keys_map_of track by (auto simp: wt)
      from 1 have eq: "\<forall>s \<in> set ?tt. map_of ?d s \<noteq> None \<longrightarrow> tot s = t"
        unfolding keys_map_of track by (simp add: wt)
      from 1 have p: "map_of ?d ''tracknumber'' = Some (nr # rest)"
        unfolding track by (simp add: w gk)
      have agree: "\<forall>s \<in> set ?tt. map_of ?d s \<noteq> None \<longrightarrow>
                 (\<exists>v vs. map_of ?d s = Some (v # vs) \<and> py_int v = Some t)"
        using parse' eq by metis
      from 1 have "(''discnumber'', ?dt) \<in> set TOT_MAP \<and> ''discnumber'' \<noteq> tag
                  \<and> ''discnumber'' \<in> keys tgs \<and> (\<exists>s \<in> set ?dt. s \<in> keys tgs) \<longrightarrow>
                  (\<exists>nr' rest' t'. map_of tgs ''discnumber'' = Some (nr' # rest') \<and>
                     (\<forall>s \<in> set ?dt. s \<in> keys tgs \<longrightarrow>
                        (\<exists>v vs. map_of tgs s = Some (v # vs) \<and> py_int v = Some t')))"
        by blast
      then have ok: "map_of ?d ''discnumber'' \<noteq> None \<and> (\<exists>s \<in> set ?dt. map_of ?d s \<noteq> None) \<longrightarrow>
                (\<exists>nr rest t. map_of ?d ''discnumber'' = Some (nr # rest) \<and>
                   (\<forall>s \<in> set ?dt. map_of ?d s \<noteq> None \<longrightarrow>
                      (\<exists>v vs. map_of ?d s = Some (v # vs) \<and> py_int v = Some t)))"
        unfolding keys_map_of track by (simp add: wd w gk TOT_MAP_def)
      from track_merge[OF p s0 agree ok] obtain r where
        "merge_all rank TOT_MAP ?d = Inr r"
        "map_of r ''tracknumber'' = Some [nr @ ''/'' @ py_str t]"
        "\<forall>s \<in> set ?tt. s \<notin> keys r"
        by blast
      then show ?case unfolding prepare_tags_def track by blast
    next
      case 2
      then obtain s1 s2 where two: "s1 \<in> set ?tt" "map_of ?d s1 \<noteq> None"
          "s2 \<in> set ?tt" "map_of ?d s2 \<noteq> None" "tot s1 \<noteq> tot s2"
        unfolding keys_map_of track by (auto simp: wt)
      from track_conflict[OF prim' parse' two]
      show ?case by (simp add: prepare_tags_def track ut)
    next
      case 3
      show ?case by (rule set_used_totals)
    qed
  next
    case disc
    have parse': "\<forall>s \<in> set ?dt. map_of ?d s \<noteq> None \<longrightarrow>
                 (\<exists>v vs. map_of ?d s = Some (v # vs) \<and> py_int v = Some (tot s))"
      using parse[unfolded keys_map_of disc] by (simp add: wd)
    have prim': "map_of ?d ''discnumber'' \<noteq> None"
      using prim[unfolded keys_map_of disc] by (simp add: w gk)
    show ?thesis
    proof (intro conjI impI, goal_cases)
      case 1
      then obtain s0 where s0: "s0 \<in> set ?dt" "map_of ?d s0 \<noteq> None"
        unfolding keys_map_of disc by (auto simp: wd)
      from 1 have eq: "\<forall>s \<in> set ?dt. map_of ?d s \<noteq> None \<longrightarrow> tot s = t"
        unfolding keys_map_of disc by (simp add: wd)
      from 1 have p: "map_of ?d ''discnumber'' = Some (nr # rest)"
        unfolding disc by (simp add: w gk)
      have agree: "\<forall>s \<in> set ?dt. map_of ?d s \<noteq> None \<longrightarrow>
                 (\<exists>v vs. map_of ?d s = Some (v # vs) \<and> py_int v = Some t)"
        using parse' eq by metis
      from 1 have "(''tracknumber'', ?tt) \<in> set TOT_MAP \<and> ''tracknumber'' \<noteq> tag
                  \<and> ''tracknumber'' \<in> keys tgs \<and> (\<exists>s \<in> set ?tt. s \<in> keys tgs) \<longrightarrow>
                  (\<exists>nr' rest' t'. map_of tgs ''tracknumber'' = Some (nr' # rest') \<and>
                     (\<forall>s \<in> set ?tt. s \<in> keys tgs \<longrightarrow>
                        (\<exists>v vs. map_of tgs s = Some (v # vs) \<and> py_int v = Some t')))"
        by blast
      then have ok: "map_of ?d ''tracknumber'' \<noteq> None \<and> (\<exists>s \<in> set ?tt. map_of ?d s \<noteq> None) \<longrightarrow>
                (\<exists>nr rest t. map_of ?d ''tracknumber'' = Some (nr # rest) \<and>
                   (\<forall>s \<in> set ?tt. map_of ?d s \<noteq> None \<longrightarrow>
                      (\<exists>v vs. map_of ?d s = Some (v # vs) \<and> py_int v = Some t)))"
        unfolding keys_map_of disc by (simp add: wt w gk TOT_MAP_def)
      from disc_merge[OF p s0 agree ok] obtain r where
        "merge_all rank TOT_MAP ?d = Inr r"
        "map_of r ''discnumber'' = Some [nr @ ''/'' @ py_str t]"
        "\<forall>s \<in> set ?dt. s \<notin> keys r"
        by blast
      then show ?case unfolding prepare_tags_def disc by blast
    next
      case 2
      then obtain s1 s2 where two: "s1 \<in> set ?dt" "map_of ?d s1 \<noteq> None"
          "s2 \<in> set ?dt" "map_of ?d s2 \<noteq> None" "tot s1 \<noteq> tot s2"
        unfolding keys_map_of disc by (auto simp: wd)
      from 2 disc have ok: "map_of ?d ''tracknumber'' \<noteq> None \<and> (\<exists>s \<in> set ?tt. map_of ?d s \<noteq> None) \<longrightarrow>
                (\<exists>nr rest t. map_of ?d ''tracknumber'' = Some (nr # rest) \<and>
                   (\<forall>s \<in> set ?tt. map_of ?d s \<noteq> None \<longrightarrow>
                      (\<exists>v vs. map_of ?d s = Some (v # vs) \<and> py_int v = Some t)))"
        unfolding keys_map_of by (simp add: wt w gk)
      from disc_conflict[OF prim' parse' two ok]
      show ?case by (simp add: prepare_tags_def disc ud)
    next
      case 3
      show ?case by (rule set_used_totals)
    qed
  qed
qed

theorem C4_group_merge_or_conflict_witness:
  "(\<forall>rank. \<exists>r more.
      prepare_tags rank [(''tracknumber'', [''3'']), (''tracktotal'', [''12''])] = Inr r
      \<and> map_of r ''tracknumber'' = Some (''3/12'' # more)
      \<and> ''tracktotal'' \<notin> keys r)
   \<and> (\<forall>rank. \<exists>used.
      prepare_tags rank
        [(''tracknumber'', [''3'']), (''tracktotal'', [''12'']), (''totaltracks'', [''11''])]
        = Inl (ConflictingTotals used)
      \<and> set used = {''tracktotal'', ''totaltracks''})
   \<and> prepare_tags (set_rank sample_env) [(''tracknumber'', [''3'']), (''tracktotal'', [''12''])]
       = Inr [(''tracknumber'', [''3/12''])]"
proof -
  let ?tt = "[''tracktotal'', ''totaltracks'', ''total tracks'']"
  let ?a = "[(''tracknumber'', [''3'']), (''tracktotal'', [''12''])]"
  let ?b = "[(''tracknumber'', [''3'']), (''tracktotal'', [''12'']), (''totaltracks'', [''11''])]"
  let ?tot = "\<lambda>s. if s = ''tracktotal'' then 12 else (11::int)"
  have g: "(''tracknumber'', ?tt) \<in> set TOT_MAP" by (simp add: TOT_MAP_def)
  have i12: "py_int ''12'' = Some 12" by code_simp
  have i11: "py_int ''11'' = Some 11" by code_simp
  have s12: "py_str 12 = ''12''" by code_simp
  have ka: "''tracknumber'' \<in> keys ?a" by (simp add: keys_def)
  have kb: "''tracknumber'' \<in> keys ?b" by (simp add: keys_def)
  have pa: "\<forall>s \<in> set ?tt. s \<in> keys ?a \<longrightarrow>
              (\<exists>v vs. map_of ?a s = Some (v # vs) \<and> py_int v = Some (?tot s))"
    by (simp add: keys_def i12)
  have pb: "\<forall>s \<in> set ?tt. s \<in> keys ?b \<longrightarrow>
              (\<exists>v vs. map_of ?b s = Some (v # vs) \<and> py_int v = Some (?tot s))"
    by (simp add: keys_def i12 i11)
  have a: "\<exists>r more. prepare_tags rank ?a = Inr r
            \<and> map_of r ''tracknumber'' = Some (''3/12'' # more) \<and> ''tracktotal'' \<notin> keys r" for rank
  proof -
    have "\<exists>r more. prepare_tags rank ?a = Inr r
            \<and> map_of r ''tracknumber'' = Some ((''3'' @ ''/'' @ py_str 12) # more)
            \<and> (\<forall>s \<in> set ?tt. s \<notin> keys r)"
      using C4_group_merge_or_conflict[OF g ka pa, where rank = rank and t = 12
          and nr = "''3''" and rest = "[]"]
      by (simp add: keys_def TOT_MAP_def)
    then show ?thesis by (auto simp: s12)
  qed
  have b: "\<exists>used. prepare_tags rank ?b = Inl (ConflictingTotals used)
            \<and> set used = {''tracktotal'', ''totaltracks''}" for rank
  proof -
    have "prepare_tags rank ?b = Inl (ConflictingTotals (used_totals rank ?tt ?b))
          \<and> set (used_totals rank ?tt ?b) = set ?tt \<inter> keys ?b"
      using C4_group_merge_or_conflict[OF g kb pb, where rank = rank]
      by (simp add: keys_def)
    moreover have "set ?tt \<inter> keys ?b = {''tracktotal'', ''totaltracks''}"
      by (auto simp: keys_def)
    ultimately show ?thesis by auto
  qed
  have c: "prepare_tags (set_rank sample_env) ?a = Inr [(''tracknumber'', [''3/12''])]"
    by code_simp
  from a b c show ?thesis by blast
qed

section \<open>Description generator and the engine's command lines\<close>

text \<open>
  C9. The specification states that the description embeds the command lines the engine uses. The
  engine decodes with \<open>flac -Vdsc -o <tmp> <source>\<close> and encodes with
  \<open>lame <preset> --quiet --add-id3v2 --ignore-tag-errors <tmp> <destination>\<close>; the
  description is a fixed pipeline text with \<open>flac -dcs\<close> and \<open>lame -S\<close>, in which
  neither \<open>-Vdsc\<close> nor \<open>--add-id3v2\<close> occurs.
\<close>

theorem C9_description_is_not_the_engine_command:
  "generate_transcode_description ''u'' ''V0'' =
     Inr (''[b]Source:[/b] u'' @ [newline] @
          ''[b]Transcode process:[/b] [code]flac -dcs -- input.flac | lame -S -V 0 --vbr-new --ignore-tag-errors - output.mp3[/code]''
          @ [newline])
   \<and> flac_cmd ''tmp.wav'' ''input.flac'' = [''flac'', ''-Vdsc'', ''-o'', ''tmp.wav'', ''input.flac'']
   \<and> lame_cmd [''-V'', ''0'', ''--vbr-new''] ''tmp.wav'' ''output.mp3'' =
       [''lame'', ''-V'', ''0'', ''--vbr-new'', ''--quiet'', ''--add-id3v2'', ''--ignore-tag-errors'',
        ''tmp.wav'', ''output.mp3'']
   \<and> map_of LAME_COMMAND_MAP ''V0'' = Some [''-V'', ''0'', ''--vbr-new'']
   \<and> \<not> sublist ''-Vdsc''
         (''[b]Source:[/b] u'' @ [newline] @
          ''[b]Transcode process:[/b] [code]flac -dcs -- input.flac | lame -S -V 0 --vbr-new --ignore-tag-errors - output.mp3[/code]''
          @ [newline])
   \<and> \<not> sublist ''--add-id3v2''
         (''[b]Source:[/b] u'' @ [newline] @
          ''[b]Transcode process:[/b] [code]flac -dcs -- input.flac | lame -S -V 0 --vbr-new --ignore-tag-errors - output.mp3[/code]''
          @ [newline])"
  by code_simp

text \<open>
  C9, amended. For a label of the engine's preset table the description is the source
  line followed by the pipeline \<open>flac -dcs -- input.flac | lame -S <flags>
  --ignore-tag-errors - output.mp3\<close>, where the flags are the label's preset flags of the
  engine, possibly in another order; for any other label the generator raises
  \<open>KeyError\<close>.
\<close>

theorem C9_description_text:
  "(map_of LAME_COMMAND_MAP bitrate = None \<longrightarrow>
      generate_transcode_description url bitrate = Inl (KeyError bitrate))
   \<and> (\<forall>preset. map_of LAME_COMMAND_MAP bitrate = Some preset \<longrightarrow>
        (\<exists>flags. set flags = set preset \<and> length flags = length preset \<and>
           generate_transcode_description url bitrate =
             Inr (''[b]Source:[/b] '' @ url @ [newline] @ ''[b]Transcode process:[/b] ''
                  @ ''[code]flac -dcs -- input.flac | lame -S ''
                  @ join_words (flags @ [''--ignore-tag-errors''])
                  @ '' - output.mp3[/code]'' @ [newline])))"
proof -
  consider (v0) "bitrate = ''V0''" | (b320) "bitrate = ''320''"
    | (other) "bitrate \<noteq> ''V0''" "bitrate \<noteq> ''320''" by blast
  then show ?thesis
  proof cases
    case v0
    have d: "generate_transcode_description url ''V0'' =
             Inr (''[b]Source:[/b] '' @ url @ [newline] @ ''[b]Transcode process:[/b] ''
                  @ ''[code]flac -dcs -- input.flac | lame -S ''
                  @ join_words ([''-V'', ''0'', ''--vbr-new''] @ [''--ignore-tag-errors''])
                  @ '' - output.mp3[/code]'' @ [newline])"
      by (simp add: generate_transcode_description_def join_words_def)
    have m: "map_of LAME_COMMAND_MAP ''V0'' = Some [''-V'', ''0'', ''--vbr-new'']"
      by (simp add: LAME_COMMAND_MAP_def)
    have "\<exists>flags. set flags = set [''-V'', ''0'', ''--vbr-new'']
            \<and> length flags = length [''-V'', ''0'', ''--vbr-new''] \<and>
           generate_transcode_description url ''V0'' =
             Inr (''[b]Source:[/b] '' @ url @ [newline] @ ''[b]Transcode process:[/b] ''
                  @ ''[code]flac -dcs -- input.flac | lame -S ''
                  @ join_words (flags @ [''--ignore-tag-errors''])
                  @ '' - output.mp3[/code]'' @ [newline])"
      using d by (intro exI[of _ "[''-V'', ''0'', ''--vbr-new'']"] conjI refl)
    then show ?thesis unfolding v0 m by blast
  next
    case b320
    have d: "generate_transcode_description url ''320'' =
             Inr (''[b]Source:[/b] '' @ url @ [newline] @ ''[b]Transcode process:[/b] ''
                  @ ''[code]flac -dcs -- input.flac | lame -S ''
                  @ join_words ([''-h'', ''-b'', ''320''] @ [''--ignore-tag-errors''])
                  @ '' - output.mp3[/code]'' @ [newline])"
      by (simp add: generate_transcode_description_def join_words_def)
    have m: "map_of LAME_COMMAND_MAP ''320'' = Some [''-b'', ''320'', ''-h'']"
      by (simp add: LAME_COMMAND_MAP_def)
    have s: "set [''-h'', ''-b'', ''320''] = set [''-b'', ''320'', ''-h'']" by auto
    have l: "length [''-h'', ''-b'', ''320''] = length [''-b'', ''320'', ''-h'']" by simp
    have "\<exists>flags. set flags = set [''-b'', ''320'', ''-h'']
            \<and> length flags = length [''-b'', ''320'', ''-h''] \<and>
           generate_transcode_description url ''320'' =
             Inr (''[b]Source:[/b] '' @ url @ [newline] @ ''[b]Transcode process:[/b] ''
                  @ ''[code]flac -dcs -- input.flac | lame -S ''
                  @ join_words (flags @ [''--ignore-tag-errors''])
                  @ '' - output.mp3[/code]'' @ [newline])"
      using d s l by (intro exI[of _ "[''-h'', ''-b'', ''320'']"] conjI)
    then show ?thesis unfolding b320 m by blast
  next
    case other
    then have "map_of LAME_COMMAND_MAP bitrate = None"
      by (simp add: LAME_COMMAND_MAP_def)
    moreover from other have "generate_transcode_description url bitrate = Inl (KeyError bitrate)"
      by (simp add: generate_transcode_description_def)
    ultimately show ?thesis by simp
  qed
qed

theorem C9_description_text_witness:
  "generate_transcode_description ''u'' ''flac'' = Inl (KeyError ''flac'')
   \<and> (\<exists>flags. set flags = {''-b'', ''320'', ''-h''} \<and>
         generate_transcode_description ''u'' ''320'' =
           Inr (''[b]Source:[/b] u'' @ [newline] @ ''[b]Transcode process:[/b] ''
                  @ ''[code]flac -dcs -- input.flac | lame -S ''
                  @ join_words (flags @ [''--ignore-tag-errors''])
                  @ '' - output.mp3[/code]'' @ [newline]))"
proof -
  have n: "map_of LAME_COMMAND_MAP ''flac'' = None" by (simp add: LAME_COMMAND_MAP_def)
  have m: "map_of LAME_COMMAND_MAP ''320'' = Some [''-b'', ''320'', ''-h'']"
    by (simp add: LAME_COMMAND_MAP_def)
  from C9_description_text[of "''flac''" "''u''"] n
  have a: "generate_transcode_description ''u'' ''flac'' = Inl (KeyError ''flac'')" by blast
  from C9_description_text[of "''320''" "''u''"] m
  obtain flags where "set flags = set [''-b'', ''320'', ''-h'']"
    "generate_transcode_description ''u'' ''320'' =
           Inr (''[b]Source:[/b] '' @ ''u'' @ [newline] @ ''[b]Transcode process:[/b] ''
                  @ ''[code]flac -dcs -- input.flac | lame -S ''
                  @ join_words (flags @ [''--ignore-tag-errors''])
                  @ '' - output.mp3[/code]'' @ [newline])"
    by blast
  then have "set flags = {''-b'', ''320'', ''-h''} \<and>
         generate_transcode_description ''u'' ''320'' =
           Inr (''[b]Source:[/b] u'' @ [newline] @ ''[b]Transcode process:[/b] ''
                  @ ''[code]flac -dcs -- input.flac | lame -S ''
                  @ join_words (flags @ [''--ignore-tag-errors''])
                  @ '' - output.mp3[/code]'' @ [newline])"
    by simp
  with a show ?thesis by blast
qed

section \<open>Top-level operation: an existing destination\<close>

lemma validate_lossless_pass:
  "fst (validate_lossless path w) = Inr () \<Longrightarrow> validate_lossless path w = (Inr (), w)"
  by (simp add: validate_lossless_def split: option.splits)

lemma validate_lossless_files:
  "files w' = files w \<Longrightarrow> fst (validate_lossless path w') = fst (validate_lossless path w)"
  by (simp add: validate_lossless_def split: option.splits)

lemma is_dir_dirs: "dirs w' = dirs w \<Longrightarrow> is_dir w' p = is_dir w p"
  by (simp add: is_dir_def)

lemma transcode_folder_existing:
  assumes "fst (validate_lossless path w) = Inr ()"
    and "is_dir w (parts (build_output_path path bitrate))"
  shows "transcode_folder ev path bitrate w =
           (Inr (build_output_path path bitrate),
            secho (build_output_path path bitrate @ '' already exists.'') w)"
  using assms by (simp add: transcode_folder_def validate_lossless_pass Let_def)

text \<open>
  C5. The specification returns the existing destination for every source path. The validator
  runs before the destination is looked at: with a lossy file below the source folder the
  operation aborts although the destination directory exists.
\<close>

theorem C5_lossy_source_aborts_first:
  "is_dir \<lparr>dirs = [[''m''], [''m'', ''A''], [''m'', ''A [MP3 V0]'']],
           files = [([''m'', ''A'', ''01.flac''], Data ''fLaC''), ([''m'', ''A'', ''bonus.mp3''], Data ''ID3'')],
           spawned = [], console = []\<rparr>
      (parts (build_output_path ''/m/A'' ''V0''))
   \<and> transcode_folder \<lparr>run = (\<lambda>cmd w. (Inr (0, []), w)), mktemp = (\<lambda>w. ''/tmp/t.wav''), set_rank = (\<lambda>k. 0)\<rparr> ''/m/A'' ''V0''
        \<lparr>dirs = [[''m''], [''m'', ''A''], [''m'', ''A [MP3 V0]'']],
           files = [([''m'', ''A'', ''01.flac''], Data ''fLaC''), ([''m'', ''A'', ''bonus.mp3''], Data ''ID3'')],
           spawned = [], console = []\<rparr>
      = (Inl Abort,
         \<lparr>dirs = [[''m''], [''m'', ''A''], [''m'', ''A [MP3 V0]'']],
           files = [([''m'', ''A'', ''01.flac''], Data ''fLaC''), ([''m'', ''A'', ''bonus.mp3''], Data ''ID3'')],
           spawned = [], console = [''A lossy file was found in the folder (bonus.mp3).'']\<rparr>)"
  by code_simp

text \<open>
  C5, amended. If the source passes the Lossless Validator and the destination directory
  computed by the Path Namer exists, the operation returns the destination path and only
  prints the notice: directories, files and the list of spawned processes are unchanged,
  so nothing is collected, copied or transcoded. Running it again from the resulting
  state does the same.
\<close>

theorem C5_existing_destination_returned:
  assumes v: "fst (validate_lossless path w) = Inr ()"
    and d: "is_dir w (parts (build_output_path path bitrate))"
  shows "transcode_folder ev path bitrate w =
           (Inr (build_output_path path bitrate),
            w\<lparr>console := console w @ [build_output_path path bitrate @ '' already exists.'']\<rparr>)
       \<and> transcode_folder ev path bitrate (snd (transcode_folder ev path bitrate w)) =
           (Inr (build_output_path path bitrate),
            w\<lparr>console := console w @ [build_output_path path bitrate @ '' already exists.'',
                                        build_output_path path bitrate @ '' already exists.'']\<rparr>)"
proof -
  let ?np = "build_output_path path bitrate"
  let ?w1 = "secho (?np @ '' already exists.'') w"
  have r1: "transcode_folder ev path bitrate w = (Inr ?np, ?w1)"
    by (rule transcode_folder_existing[OF v d])
  have f: "files ?w1 = files w" and dd: "dirs ?w1 = dirs w" by (simp_all add: secho_def)
  have v1: "fst (validate_lossless path ?w1) = Inr ()"
    using v validate_lossless_files[OF f] by simp
  have d1: "is_dir ?w1 (parts ?np)" using d is_dir_dirs[OF dd] by simp
  have r2: "transcode_folder ev path bitrate ?w1 = (Inr ?np, secho (?np @ '' already exists.'') ?w1)"
    by (rule transcode_folder_existing[OF v1 d1])
  show ?thesis unfolding r1 snd_conv r2 by (simp add: secho_def)
qed

theorem C5_existing_destination_witness:
  "transcode_folder \<lparr>run = (\<lambda>cmd w. (Inr (0, []), w)), mktemp = (\<lambda>w. ''/tmp/t.wav''), set_rank = (\<lambda>k. 0)\<rparr> ''/m/A'' ''V0''
        \<lparr>dirs = [[''m''], [''m'', ''A''], [''m'', ''A [MP3 V0]'']],
           files = [([''m'', ''A'', ''01.flac''], Data ''fLaC'')],
           spawned = [], console = []\<rparr>
      = (Inr ''/m/A [MP3 V0]'',
         \<lparr>dirs = [[''m''], [''m'', ''A''], [''m'', ''A [MP3 V0]'']],
           files = [([''m'', ''A'', ''01.flac''], Data ''fLaC'')],
           spawned = [], console = [''/m/A [MP3 V0] already exists.'']\<rparr>)"
proof -
  let ?w = "\<lparr>dirs = [[''m''], [''m'', ''A''], [''m'', ''A [MP3 V0]'']],
           files = [([''m'', ''A'', ''01.flac''], Data ''fLaC'')],
           spawned = [], console = []\<rparr>"
  have p: "build_output_path ''/m/A'' ''V0'' = ''/m/A [MP3 V0]''" by code_simp
  have v: "fst (validate_lossless ''/m/A'' ?w) = Inr ()" by code_simp
  have d: "is_dir ?w (parts (build_output_path ''/m/A'' ''V0''))" by code_simp
  from C5_existing_destination_returned[OF v d] show ?thesis unfolding p by simp
qed

section \<open>Transcode Engine: channel check and temporary file\<close>

text \<open>
  C6. For an item with more than two channels the unit of work returns the channel-count
  error, which holds the source file and the channel count, and leaves the world as it
  was: no process is spawned, no file is created, nothing is printed. For an item with at
  most two channels the check does not fire and the unit of work is the decode-encode
  sequence followed by the Tag Writer.
\<close>

theorem C6_channel_check_precedes_processes:
  assumes "idx < length items"
  shows "(channels (flac_obj (items ! idx)) > 2 \<longrightarrow>
            transcode_one ev items bitrate file idx w =
              (Inl (ChannelCount (src (items ! idx)) (channels (flac_obj (items ! idx)))), w))
       \<and> (channels (flac_obj (items ! idx)) \<le> 2 \<longrightarrow>
            transcode_one ev items bitrate file idx w =
              (case flac_to_mp3 ev bitrate (src (items ! idx)) (dst (items ! idx))
                      (secho (''Encoding: '' @ dst (items ! idx)) w) of
                 (Inl e, w2) \<Rightarrow> (Inl e, w2)
               | (Inr u, w2) \<Rightarrow>
                   copy_tags (tags (items ! idx)) (flac_obj (items ! idx)) (dst (items ! idx)) w2))"
  using assms by (simp add: transcode_one_def Let_def)

theorem C6_channel_check_witness:
  "transcode_one sample_env
      [\<lparr>src = ''/m/A/01.flac'', dst = ''/m/A [MP3 V0]/01.mp3'',
        flac_obj = sample_flac\<lparr>channels := 6\<rparr>, tags = []\<rparr>] ''V0'' ''/m/A/01.flac'' 0 sample_world
     = (Inl (ChannelCount ''/m/A/01.flac'' 6), sample_world)
   \<and> fst (transcode_one sample_env
      [\<lparr>src = ''/m/A/01.flac'', dst = ''/m/A [MP3 V0]/01.mp3'',
        flac_obj = sample_flac, tags = []\<rparr>] ''V0'' ''/m/A/01.flac'' 0 sample_world) = Inr ()"
proof -
  let ?i6 = "\<lparr>src = ''/m/A/01.flac'', dst = ''/m/A [MP3 V0]/01.mp3'',
        flac_obj = sample_flac\<lparr>channels := 6\<rparr>, tags = []\<rparr>"
  let ?i2 = "\<lparr>src = ''/m/A/01.flac'', dst = ''/m/A [MP3 V0]/01.mp3'',
        flac_obj = sample_flac, tags = []\<rparr>"
  have l6: "0 < length [?i6]" and l2: "0 < length [?i2]" by simp_all
  have c6: "channels (flac_obj ([?i6] ! 0)) > 2" by (simp add: sample_flac_def)
  have c2: "channels (flac_obj ([?i2] ! 0)) \<le> 2" by (simp add: sample_flac_def)
  from C6_channel_check_precedes_processes[OF l6, of sample_env "''V0''" "''/m/A/01.flac''" sample_world] c6
  have a: "transcode_one sample_env [?i6] ''V0'' ''/m/A/01.flac'' 0 sample_world
             = (Inl (ChannelCount ''/m/A/01.flac'' 6), sample_world)"
    by (simp add: sample_flac_def)
  have e: "fst (case flac_to_mp3 sample_env ''V0'' (src ([?i2] ! 0)) (dst ([?i2] ! 0))
                      (secho (''Encoding: '' @ dst ([?i2] ! 0)) sample_world) of
                 (Inl e, w2) \<Rightarrow> (Inl e, w2)
               | (Inr u, w2) \<Rightarrow>
                   copy_tags (tags ([?i2] ! 0)) (flac_obj ([?i2] ! 0)) (dst ([?i2] ! 0)) w2) = Inr ()"
    by code_simp
  from C6_channel_check_precedes_processes[OF l2, of sample_env "''V0''" "''/m/A/01.flac''" sample_world] c2
  have "transcode_one sample_env [?i2] ''V0'' ''/m/A/01.flac'' 0 sample_world
        = (case flac_to_mp3 sample_env ''V0'' (src ([?i2] ! 0)) (dst ([?i2] ! 0))
                      (secho (''Encoding: '' @ dst ([?i2] ! 0)) sample_world) of
                 (Inl e, w2) \<Rightarrow> (Inl e, w2)
               | (Inr u, w2) \<Rightarrow>
                   copy_tags (tags ([?i2] ! 0)) (flac_obj ([?i2] ! 0)) (dst ([?i2] ! 0)) w2)"
    by blast
  then have b: "fst (transcode_one sample_env [?i2] ''V0'' ''/m/A/01.flac'' 0 sample_world) = Inr ()"
    using e by (simp only:)
  from a b show ?thesis by blast
qed

lemma unlink_not_file: "unlink p w = Inr w' \<Longrightarrow> \<not> is_file w' p"
  by (auto simp: unlink_def is_file_def split: if_splits)

lemma unlink_fails_not_file: "unlink p w = Inl e \<Longrightarrow> \<not> is_file w p"
  by (auto simp: unlink_def split: if_splits)

lemma finally_removes:
  "\<not> is_file (snd (if path_exists w3 p then
                      (case unlink p w3 of Inl e \<Rightarrow> (Inl e, w3) | Inr w4 \<Rightarrow> (r, w4))
                    else (r, w3))) p"
proof (cases "path_exists w3 p")
  case False
  then show ?thesis by (simp add: path_exists_def)
next
  case True
  then show ?thesis
    by (cases "unlink p w3") (auto dest: unlink_not_file unlink_fails_not_file)
qed

lemma flac_to_mp3_unfold:
  assumes "mkdir_p (butlast (parts mp3_path)) w = Inr w1"
  shows "flac_to_mp3 ev q flac_path mp3_path w =
           (let tmp_path = mktemp ev w1;
                body = decode_encode ev q flac_path mp3_path tmp_path
                         (write_file (parts tmp_path) (Data []) w1)
            in if path_exists (snd body) (parts tmp_path) then
                 (case unlink (parts tmp_path) (snd body) of
                    Inl e \<Rightarrow> (Inl e, snd body)
                  | Inr w4 \<Rightarrow> (fst body, w4))
               else (fst body, snd body))"
  using assms by (simp add: flac_to_mp3_def Let_def case_prod_beta)

lemma flac_to_mp3_clean:
  assumes "mkdir_p (butlast (parts mp3_path)) w = Inr w1"
  shows "\<not> is_file (snd (flac_to_mp3 ev q flac_path mp3_path w)) (parts (mktemp ev w1))"
  unfolding flac_to_mp3_unfold[OF assms] Let_def by (rule finally_removes)

lemma flac_to_mp3_outcome:
  assumes mk: "mkdir_p (butlast (parts mp3_path)) w = Inr w1"
    and body: "decode_encode ev q flac_path mp3_path (mktemp ev w1)
                 (write_file (parts (mktemp ev w1)) (Data []) w1) = (r, w3)"
    and nd: "\<not> is_dir w3 (parts (mktemp ev w1))"
  shows "fst (flac_to_mp3 ev q flac_path mp3_path w) = r"
proof (cases "is_file w3 (parts (mktemp ev w1))")
  case True
  then obtain w4 where "unlink (parts (mktemp ev w1)) w3 = Inr w4" by (simp add: unlink_def)
  with True show ?thesis
    unfolding flac_to_mp3_unfold[OF mk] Let_def body by (simp add: path_exists_def)
next
  case False
  with nd show ?thesis
    unfolding flac_to_mp3_unfold[OF mk] Let_def body by (simp add: path_exists_def)
qed

text \<open>
  C7. The specification lets the raised error carry the diagnostic output of the failing process
  in both failure cases. When the decoder fails, the error holds only the exit code; the
  captured standard error is printed to the console.
\<close>

theorem C7_decoder_error_omits_diagnostic:
  "flac_to_mp3 failing_decoder ''V0'' ''/m/A/01.flac'' ''/m/A [MP3 V0]/01.mp3'' sample_world
     = (Inl (RuntimeError ''FLAC decoding failed with code 1''),
        sample_world\<lparr>dirs := dirs sample_world @ [[''m'', ''A [MP3 V0]'']],
                     spawned := [[''flac'', ''-Vdsc'', ''-o'', ''/tmp/tmp0.wav'', ''/m/A/01.flac'']],
                     console := [''corrupt stream'']\<rparr>)
   \<and> \<not> sublist ''corrupt stream'' ''FLAC decoding failed with code 1''"
  by code_simp

text \<open>
  C7, amended. Whatever the two processes do and return, no file is left at the
  temporary path when \<open>_flac_to_mp3\<close> returns or raises. When the decoder exits with a
  non-zero code the error names that code (its diagnostic output is printed, not
  attached); when the encoder exits with a non-zero code the error is its captured
  standard error, or a fixed message when that is empty; when both exit with zero the call
  succeeds. The three outcomes are stated for runs in which the temporary path has not
  been turned into a directory.
\<close>

theorem C7_temporary_file_removed:
  assumes mk: "mkdir_p (butlast (parts mp3_path)) w = Inr w1"
  shows "\<not> is_file (snd (flac_to_mp3 ev q flac_path mp3_path w)) (parts (mktemp ev w1))
    \<and> (\<forall>rc err w3. run_process ev (flac_cmd (mktemp ev w1) flac_path)
                      (write_file (parts (mktemp ev w1)) (Data []) w1) = (Inr (rc, err), w3)
          \<and> rc \<noteq> 0 \<and> \<not> is_dir w3 (parts (mktemp ev w1)) \<longrightarrow>
          fst (flac_to_mp3 ev q flac_path mp3_path w) =
            Inl (RuntimeError (''FLAC decoding failed with code '' @ py_str rc)))
    \<and> (\<forall>err w3 preset rc2 err2 w4.
          run_process ev (flac_cmd (mktemp ev w1) flac_path)
            (write_file (parts (mktemp ev w1)) (Data []) w1) = (Inr (0, err), w3)
          \<and> map_of LAME_COMMAND_MAP q = Some preset
          \<and> run_process ev (lame_cmd preset (mktemp ev w1) mp3_path) w3 = (Inr (rc2, err2), w4)
          \<and> \<not> is_dir w4 (parts (mktemp ev w1)) \<longrightarrow>
          fst (flac_to_mp3 ev q flac_path mp3_path w) =
            (if rc2 \<noteq> 0 then Inl (RuntimeError (if err2 \<noteq> [] then err2 else ''LAME encoding failed''))
             else Inr ()))"
proof (intro conjI allI impI)
  show "\<not> is_file (snd (flac_to_mp3 ev q flac_path mp3_path w)) (parts (mktemp ev w1))"
    by (rule flac_to_mp3_clean[OF mk])
next
  fix rc err w3
  assume h: "run_process ev (flac_cmd (mktemp ev w1) flac_path)
                      (write_file (parts (mktemp ev w1)) (Data []) w1) = (Inr (rc, err), w3)
          \<and> rc \<noteq> 0 \<and> \<not> is_dir w3 (parts (mktemp ev w1))"
  let ?w3 = "if err \<noteq> [] then secho err w3 else w3"
  from h have b: "decode_encode ev q flac_path mp3_path (mktemp ev w1)
                 (write_file (parts (mktemp ev w1)) (Data []) w1)
         = (Inl (RuntimeError (''FLAC decoding failed with code '' @ py_str rc)), ?w3)"
    by (simp add: decode_encode_def)
  from h have nd: "\<not> is_dir ?w3 (parts (mktemp ev w1))" by (simp add: is_dir_def secho_def)
  from flac_to_mp3_outcome[OF mk b nd]
  show "fst (flac_to_mp3 ev q flac_path mp3_path w) =
            Inl (RuntimeError (''FLAC decoding failed with code '' @ py_str rc))" .
next
  fix err w3 preset rc2 err2 w4
  assume h: "run_process ev (flac_cmd (mktemp ev w1) flac_path)
            (write_file (parts (mktemp ev w1)) (Data []) w1) = (Inr (0, err), w3)
          \<and> map_of LAME_COMMAND_MAP q = Some preset
          \<and> run_process ev (lame_cmd preset (mktemp ev w1) mp3_path) w3 = (Inr (rc2, err2), w4)
          \<and> \<not> is_dir w4 (parts (mktemp ev w1))"
  let ?r = "if rc2 \<noteq> 0 then Inl (RuntimeError (if err2 \<noteq> [] then err2 else ''LAME encoding failed''))
             else Inr ()"
  from h have b: "decode_encode ev q flac_path mp3_path (mktemp ev w1)
                 (write_file (parts (mktemp ev w1)) (Data []) w1) = (?r, w4)"
    by (simp add: decode_encode_def)
  from h have nd: "\<not> is_dir w4 (parts (mktemp ev w1))" by simp
  from flac_to_mp3_outcome[OF mk b nd]
  show "fst (flac_to_mp3 ev q flac_path mp3_path w) = ?r" .
qed

theorem C7_temporary_file_witness:
  "\<not> is_file (snd (flac_to_mp3 sample_env ''V0'' ''/m/A/01.flac'' ''/m/A [MP3 V0]/01.mp3'' sample_world))
       [''tmp'', ''tmp0.wav'']
   \<and> \<not> is_file (snd (flac_to_mp3 failing_decoder ''V0'' ''/m/A/01.flac'' ''/m/A [MP3 V0]/01.mp3'' sample_world))
       [''tmp'', ''tmp0.wav'']
   \<and> fst (flac_to_mp3 failing_decoder ''V0'' ''/m/A/01.flac'' ''/m/A [MP3 V0]/01.mp3'' sample_world)
       = Inl (RuntimeError ''FLAC decoding failed with code 1'')"
proof -
  let ?w1 = "sample_world\<lparr>dirs := dirs sample_world @ [[''m'', ''A [MP3 V0]'']]\<rparr>"
  let ?w2 = "write_file [''tmp'', ''tmp0.wav''] (Data []) ?w1"
  let ?cmd = "flac_cmd ''/tmp/tmp0.wav'' ''/m/A/01.flac''"
  have mk: "mkdir_p (butlast (parts ''/m/A [MP3 V0]/01.mp3'')) sample_world = Inr ?w1" by code_simp
  have t1: "mktemp sample_env ?w1 = ''/tmp/tmp0.wav''" by (simp add: sample_env_def)
  have t2: "mktemp failing_decoder ?w1 = ''/tmp/tmp0.wav''" by (simp add: failing_decoder_def)
  have p: "parts ''/tmp/tmp0.wav'' = [''tmp'', ''tmp0.wav'']" by code_simp
  have s1: "py_str 1 = ''1''" by code_simp
  have r: "fst (run_process failing_decoder ?cmd ?w2) = Inr (1, ''corrupt stream'')" by code_simp
  then have r': "run_process failing_decoder ?cmd ?w2
                  = (Inr (1, ''corrupt stream''), snd (run_process failing_decoder ?cmd ?w2))"
    by (metis prod.collapse)
  have nd: "\<not> is_dir (snd (run_process failing_decoder ?cmd ?w2)) [''tmp'', ''tmp0.wav'']"
    by code_simp
  note a = C7_temporary_file_removed[OF mk, of sample_env "''V0''" "''/m/A/01.flac''"]
  note b = C7_temporary_file_removed[OF mk, of failing_decoder "''V0''" "''/m/A/01.flac''"]
  from a have x: "\<not> is_file (snd (flac_to_mp3 sample_env ''V0'' ''/m/A/01.flac'' ''/m/A [MP3 V0]/01.mp3'' sample_world))
       [''tmp'', ''tmp0.wav'']"
    unfolding t1 p by blast
  from b have y: "\<not> is_file (snd (flac_to_mp3 failing_decoder ''V0'' ''/m/A/01.flac'' ''/m/A [MP3 V0]/01.mp3'' sample_world))
       [''tmp'', ''tmp0.wav'']"
    unfolding t2 p by blast
  from b have "run_process failing_decoder ?cmd ?w2
                  = (Inr (1, ''corrupt stream''), snd (run_process failing_decoder ?cmd ?w2))
          \<and> (1::int) \<noteq> 0 \<and> \<not> is_dir (snd (run_process failing_decoder ?cmd ?w2)) [''tmp'', ''tmp0.wav'']
          \<longrightarrow> fst (flac_to_mp3 failing_decoder ''V0'' ''/m/A/01.flac'' ''/m/A [MP3 V0]/01.mp3'' sample_world) =
            Inl (RuntimeError (''FLAC decoding failed with code '' @ py_str 1))"
    unfolding t2 p by blast
  with r' nd have z: "fst (flac_to_mp3 failing_decoder ''V0'' ''/m/A/01.flac'' ''/m/A [MP3 V0]/01.mp3'' sample_world)
       = Inl (RuntimeError ''FLAC decoding failed with code 1'')"
    by (simp add: s1)
  from x y z show ?thesis by blast
qed

section \<open>Tag Writer: the frames written\<close>

lemma map_of_write_file: "map_of (files (write_file p c w)) p = Some c"
proof -
  have "map_of (filter (\<lambda>e. fst e \<noteq> p) (files w)) p = None"
    by (auto simp: map_of_eq_None_iff)
  then show ?thesis by (simp add: write_file_def map_add_def)
qed

lemma map_of_id3_add:
  "map_of (id3_add f c) h = (if h = hash_key f then Some f else map_of c h)"
  by (simp add: id3_add_def map_of_dict_set)

lemma foldl_id3_add_other:
  "h \<notin> hash_key ` set fs \<Longrightarrow> map_of (foldl (\<lambda>c f. id3_add f c) c fs) h = map_of c h"
  by (induction fs arbitrary: c) (simp_all add: map_of_id3_add)

lemma foldl_id3_add_last:
  assumes "hash_key f \<notin> hash_key ` set post"
  shows "map_of (foldl (\<lambda>c f. id3_add f c) c (pre @ f # post)) (hash_key f) = Some f"
  using assms by (simp add: foldl_id3_add_other map_of_id3_add)

lemma copy_tags_result:
  assumes "open_mp3 mp3_path w = Inr m" and "id3 m \<noteq> Some []"
  shows "copy_tags tag_dict fl mp3_path w =
           (Inr (),
            write_file (parts mp3_path)
              (Mp3 \<lparr>id3 = Some (foldl (\<lambda>c f. id3_add f c)
                                  (case id3 m of None \<Rightarrow> [] | Some c0 \<Rightarrow> c0)
                                  (map (\<lambda>(k, v). get_id3_frame k v) tag_dict
                                   @ map apic (pictures fl))),
                     save_args = Some (0, ID3V2_VERSION)\<rparr>)
              (secho (''     Copy tags: '' @ mp3_path) w))"
proof (cases "id3 m")
  case None
  with assms show ?thesis
    by (cases m) (simp add: copy_tags_def add_tags_def Let_def)
next
  case (Some fs)
  with assms show ?thesis
    by (cases m) (simp add: copy_tags_def Let_def)
qed

text \<open>
  C8. The specification puts a frame for every tag key and for every picture into the
  destination. The container holds one frame per frame key: the keys \<open>albumartist\<close> and
  \<open>album artist\<close> both map to \<open>TPE2\<close>, and with both present the saved file holds the
  frame of the second only.
\<close>

theorem C8_synonym_keys_share_one_frame:
  "fst (copy_tags [(''albumartist'', [''X'']), (''album artist'', [''Y''])]
          (sample_flac\<lparr>pictures := []\<rparr>) ''/m/B/01.mp3''
          \<lparr>dirs = [[''m''], [''m'', ''B'']],
           files = [([''m'', ''B'', ''01.mp3''], Mp3 \<lparr>id3 = None, save_args = None\<rparr>)],
           spawned = [], console = []\<rparr>) = Inr ()
   \<and> map_of (files (snd (copy_tags [(''albumartist'', [''X'']), (''album artist'', [''Y''])]
          (sample_flac\<lparr>pictures := []\<rparr>) ''/m/B/01.mp3''
          \<lparr>dirs = [[''m''], [''m'', ''B'']],
           files = [([''m'', ''B'', ''01.mp3''], Mp3 \<lparr>id3 = None, save_args = None\<rparr>)],
           spawned = [], console = []\<rparr>))) [''m'', ''B'', ''01.mp3'']
       = Some (Mp3 \<lparr>id3 = Some [(''TPE2'', Frame ''TPE2'' 3 [''Y''])], save_args = Some (0, 4)\<rparr>)"
  by code_simp

text \<open>
  C8, amended. Let the destination open as an MP3 whose tag container is absent or holds a
  frame (an existing container without frames makes \<open>add_tags\<close> raise). Then the Tag
  Writer succeeds and saves the file with \<open>v1=0\<close> and version 4. The saved container is
  the one the file had, to which the frames were added one by one: for each tag key, in
  the order of the mapping, the frame that the mapped frame class builds from encoding 3
  and the key's value sequence when the key is in the Vorbis-to-ID3 table, else the
  \<open>TXXX\<close> frame built from the key as description and the value sequence as text; then for
  each picture the \<open>APIC\<close> frame built from its mime type, type code, description and
  data. Every one of these frames whose frame key no later one shares is in the saved
  container, under its frame key.
\<close>

theorem C8_tag_writer_frames:
  assumes op: "open_mp3 mp3_path w = Inr m" and ne: "id3 m \<noteq> Some []"
  shows "\<exists>w' c.
           copy_tags tag_dict fl mp3_path w = (Inr (), w')
         \<and> map_of (files w') (parts mp3_path)
             = Some (Mp3 \<lparr>id3 = Some c, save_args = Some (0, 4)\<rparr>)
         \<and> c = foldl (\<lambda>c f. id3_add f c) (case id3 m of None \<Rightarrow> [] | Some c0 \<Rightarrow> c0)
                 (map (\<lambda>(k, v). case map_of VORBIS_TO_ID3_MAP k of
                                   Some frame_name \<Rightarrow> Frame frame_name 3 v
                                 | None \<Rightarrow> TXXX 3 k v) tag_dict
                  @ map (\<lambda>pic. APIC 3 (mime pic) (ptype pic) (desc pic) (pdata pic)) (pictures fl))
         \<and> (\<forall>pre f post.
               map (\<lambda>(k, v). case map_of VORBIS_TO_ID3_MAP k of
                                Some frame_name \<Rightarrow> Frame frame_name 3 v
                              | None \<Rightarrow> TXXX 3 k v) tag_dict
               @ map (\<lambda>pic. APIC 3 (mime pic) (ptype pic) (desc pic) (pdata pic)) (pictures fl)
                 = pre @ f # post
               \<and> hash_key f \<notin> hash_key ` set post \<longrightarrow>
               map_of c (hash_key f) = Some f)"
proof -
  let ?fs = "map (\<lambda>(k, v). case map_of VORBIS_TO_ID3_MAP k of
                                   Some frame_name \<Rightarrow> Frame frame_name 3 v
                                 | None \<Rightarrow> TXXX 3 k v) tag_dict
             @ map (\<lambda>pic. APIC 3 (mime pic) (ptype pic) (desc pic) (pdata pic)) (pictures fl)"
  let ?c0 = "case id3 m of None \<Rightarrow> [] | Some c0 \<Rightarrow> c0"
  let ?c = "foldl (\<lambda>c f. id3_add f c) ?c0 ?fs"
  let ?w' = "write_file (parts mp3_path) (Mp3 \<lparr>id3 = Some ?c, save_args = Some (0, ID3V2_VERSION)\<rparr>)
              (secho (''     Copy tags: '' @ mp3_path) w)"
  have g: "(\<lambda>(k, v). get_id3_frame k v)
           = (\<lambda>(k, v). case map_of VORBIS_TO_ID3_MAP k of
                          Some frame_name \<Rightarrow> Frame frame_name 3 v
                        | None \<Rightarrow> TXXX 3 k v)"
    by (simp add: get_id3_frame_def fun_eq_iff)
  have p: "apic = (\<lambda>pic. APIC 3 (mime pic) (ptype pic) (desc pic) (pdata pic))"
    by (simp add: apic_def fun_eq_iff)
  have a: "copy_tags tag_dict fl mp3_path w = (Inr (), ?w')"
    using copy_tags_result[OF op ne, of tag_dict fl] unfolding g p .
  have b: "map_of (files ?w') (parts mp3_path)
             = Some (Mp3 \<lparr>id3 = Some ?c, save_args = Some (0, 4)\<rparr>)"
    by (simp add: map_of_write_file ID3V2_VERSION_def)
  have d: "\<forall>pre f post. ?fs = pre @ f # post \<and> hash_key f \<notin> hash_key ` set post \<longrightarrow>
               map_of ?c (hash_key f) = Some f"
  proof (intro allI impI)
    fix pre f post
    assume h: "?fs = pre @ f # post \<and> hash_key f \<notin> hash_key ` set post"
    then have e: "?fs = pre @ f # post" and n: "hash_key f \<notin> hash_key ` set post"
      by simp_all
    show "map_of ?c (hash_key f) = Some f"
      unfolding e by (rule foldl_id3_add_last[OF n])
  qed
  from a b d show ?thesis by blast
qed

theorem C8_tag_writer_witness:
  "\<exists>w'. copy_tags [(''title'', [''a'', ''b'']), (''mood'', [''calm''])] sample_flac ''/m/B/01.mp3''
          \<lparr>dirs = [[''m''], [''m'', ''B'']],
           files = [([''m'', ''B'', ''01.mp3''], Mp3 \<lparr>id3 = None, save_args = None\<rparr>)],
           spawned = [], console = []\<rparr> = (Inr (), w')
     \<and> map_of (files w') [''m'', ''B'', ''01.mp3'']
         = Some (Mp3 \<lparr>id3 = Some [(''TIT2'', Frame ''TIT2'' 3 [''a'', ''b'']),
                                   (''TXXX:mood'', TXXX 3 ''mood'' [''calm'']),
                                   (''APIC:front'', APIC 3 ''image/png'' 3 ''front'' ''PNG'')],
                       save_args = Some (0, 4)\<rparr>)"
proof -
  let ?w = "\<lparr>dirs = [[''m''], [''m'', ''B'']],
           files = [([''m'', ''B'', ''01.mp3''], Mp3 \<lparr>id3 = None, save_args = None\<rparr>)],
           spawned = [], console = []\<rparr>"
  let ?m = "\<lparr>id3 = None, save_args = None\<rparr>"
  let ?td = "[(''title'', [''a'', ''b'']), (''mood'', [''calm''])]"
  have op: "open_mp3 ''/m/B/01.mp3'' ?w = Inr ?m" by code_simp
  have ne: "id3 ?m \<noteq> Some []" by simp
  have p: "parts ''/m/B/01.mp3'' = [''m'', ''B'', ''01.mp3'']" by code_simp
  have f: "foldl (\<lambda>c f. id3_add f c) (case id3 ?m of None \<Rightarrow> [] | Some c0 \<Rightarrow> c0)
             (map (\<lambda>(k, v). case map_of VORBIS_TO_ID3_MAP k of
                               Some frame_name \<Rightarrow> Frame frame_name 3 v
                             | None \<Rightarrow> TXXX 3 k v) ?td
              @ map (\<lambda>pic. APIC 3 (mime pic) (ptype pic) (desc pic) (pdata pic))
                  (pictures sample_flac))
           = [(''TIT2'', Frame ''TIT2'' 3 [''a'', ''b'']),
              (''TXXX:mood'', TXXX 3 ''mood'' [''calm'']),
              (''APIC:front'', APIC 3 ''image/png'' 3 ''front'' ''PNG'')]"
    by code_simp
  from C8_tag_writer_frames[OF op ne, of ?td sample_flac] show ?thesis
    unfolding p f by blast
qed

section \<open>Item Collector: the extension is matched as written\<close>

lemma join_sep_suffix: "e \<noteq> [] \<Longrightarrow> suffix (last e) (join_sep e)"
proof (induction e rule: join_sep.induct)
  case 1
  then show ?case by simp
next
  case (2 c)
  then show ?case by simp
next
  case (3 c d ds)
  then have "suffix (last (d # ds)) (join_sep (d # ds))" by simp
  then have "suffix (last (d # ds)) (c @ [sep] @ join_sep (d # ds))"
    by (metis append_assoc suffix_appendI)
  then show ?case by simp
qed

lemma str_path_suffix:
  assumes "e \<noteq> []" and "suffix x (last e)"
  shows "suffix x (str_path r e)"
proof -
  have "suffix (last e) (join_sep e)" by (rule join_sep_suffix[OF assms(1)])
  then have "suffix (last e) (r @ join_sep e)" by (rule suffix_appendI)
  with assms(2) have "suffix x (r @ join_sep e)" by (rule suffix_order.trans)
  with assms(1) show ?thesis by (simp add: str_path_def)
qed

lemma collect_loop_srcs:
  "collect_loop rank sr sp dr dp w es = Inr items \<Longrightarrow> map src items = map (str_path sr) es"
proof (induction es arbitrary: items)
  case Nil
  then show ?case by simp
next
  case (Cons e es)
  from Cons.prems obtain fl tag_dict rest where
    r: "collect_loop rank sr sp dr dp w es = Inr rest" and
    i: "items = \<lparr>src = str_path sr e, dst = str_path dr (rebase_mp3 sp dp e),
                  flac_obj = fl, tags = tag_dict\<rparr> # rest"
    by (auto split: sum.splits prod.splits)
  from Cons.IH[OF r] i show ?case by simp
qed

lemma rglob_flac_entry:
  assumes "e \<in> set (rglob_flac d w)"
  shows "e \<noteq> []" and "suffix ''.flac'' (last e)"
  using assms by (auto simp: rglob_flac_def entries_under_def)

lemma validate_lossless_abort:
  assumes "f \<in> set (map fst (files w))" and "strict_prefix (parts path) f"
    and "lower (splitext_ext (last f)) \<in> set LOSSY_EXTENSIONS"
  shows "fst (validate_lossless path w) = Inl Abort"
proof -
  let ?P = "\<lambda>f. lower (splitext_ext (last f)) \<in> set LOSSY_EXTENSIONS"
  let ?fs = "filter (strict_prefix (parts path)) (map fst (files w))"
  from assms have "f \<in> set ?fs" "?P f" by auto
  then have "find ?P ?fs \<noteq> None" by (auto simp: find_None_iff)
  then show ?thesis by (auto simp: validate_lossless_def)
qed

text \<open>
  C10. The sources of the work items are exactly the entries below the source folder whose
  name ends in the lowercase \<open>.flac\<close>, in sorted order, so every item's source ends in
  \<open>.flac\<close>; the validator aborts on a file whose lowered extension is lossy. In the sample
  album the track \<open>02.FLAC\<close> yields no item, no process and no destination file, while
  the cover \<open>cover.JPG\<close> is copied and a file \<open>03.MP3\<close> makes the validator abort.
\<close>

theorem C10_collector_matches_lowercase_flac:
  "(collect_transcode_items rank path new_path w = Inr items \<longrightarrow>
      map src items =
        map (str_path (root_of path))
          (sort (filter (\<lambda>e. suffix ''.flac'' (last e)) (entries_under w (parts path))))
      \<and> (\<forall>it \<in> set items. suffix ''.flac'' (src it)))
   \<and> (f \<in> set (map fst (files w)) \<and> strict_prefix (parts path) f
        \<and> lower (splitext_ext (last f)) \<in> set LOSSY_EXTENSIONS \<longrightarrow>
        fst (validate_lossless path w) = Inl Abort)
   \<and> collect_transcode_items (set_rank sample_env) ''/m/A'' ''/m/A [MP3 V0]'' sample_world
       = Inr [\<lparr>src = ''/m/A/01.flac'', dst = ''/m/A [MP3 V0]/01.mp3'', flac_obj = sample_flac,
               tags = [(''tracknumber'', [''3/12'']), (''mood'', [''calm'', ''slow''])]\<rparr>]
   \<and> fst (transcode_folder sample_env ''/m/A'' ''V0'' sample_world) = Inr ''/m/A [MP3 V0]''
   \<and> map fst (files (snd (transcode_folder sample_env ''/m/A'' ''V0'' sample_world)))
       = [[''m'', ''A'', ''01.flac''], [''m'', ''A'', ''02.FLAC''], [''m'', ''A'', ''cover.JPG''],
          [''m'', ''A [MP3 V0]'', ''cover.JPG''], [''m'', ''A [MP3 V0]'', ''01.mp3'']]
   \<and> spawned (snd (transcode_folder sample_env ''/m/A'' ''V0'' sample_world))
       = [[''flac'', ''-Vdsc'', ''-o'', ''/tmp/tmp0.wav'', ''/m/A/01.flac''],
          [''lame'', ''-V'', ''0'', ''--vbr-new'', ''--quiet'', ''--add-id3v2'',
           ''--ignore-tag-errors'', ''/tmp/tmp0.wav'', ''/m/A [MP3 V0]/01.mp3'']]
   \<and> fst (validate_lossless ''/m/A''
             (sample_world\<lparr>files := files sample_world @ [([''m'', ''A'', ''03.MP3''], Data [])]\<rparr>))
       = Inl Abort"
proof (intro conjI impI)
  assume c: "collect_transcode_items rank path new_path w = Inr items"
  then show m: "map src items =
        map (str_path (root_of path))
          (sort (filter (\<lambda>e. suffix ''.flac'' (last e)) (entries_under w (parts path))))"
    unfolding collect_transcode_items_def rglob_flac_def by (rule collect_loop_srcs)
  show "\<forall>it \<in> set items. suffix ''.flac'' (src it)"
  proof
    fix it assume "it \<in> set items"
    then have "src it \<in> set (map src items)" by simp
    then obtain e where e: "e \<in> set (rglob_flac (parts path) w)" "src it = str_path (root_of path) e"
      unfolding m by (auto simp: rglob_flac_def)
    from rglob_flac_entry[OF e(1)] show "suffix ''.flac'' (src it)"
      unfolding e(2) by (rule str_path_suffix)
  qed
next
  assume "f \<in> set (map fst (files w)) \<and> strict_prefix (parts path) f
        \<and> lower (splitext_ext (last f)) \<in> set LOSSY_EXTENSIONS"
  then show "fst (validate_lossless path w) = Inl Abort"
    by (intro validate_lossless_abort[of f]) auto
next
  show "collect_transcode_items (set_rank sample_env) ''/m/A'' ''/m/A [MP3 V0]'' sample_world
       = Inr [\<lparr>src = ''/m/A/01.flac'', dst = ''/m/A [MP3 V0]/01.mp3'', flac_obj = sample_flac,
               tags = [(''tracknumber'', [''3/12'']), (''mood'', [''calm'', ''slow''])]\<rparr>]"
    by code_simp
next
  show "fst (transcode_folder sample_env ''/m/A'' ''V0'' sample_world) = Inr ''/m/A [MP3 V0]''"
    by code_simp
next
  show "map fst (files (snd (transcode_folder sample_env ''/m/A'' ''V0'' sample_world)))
       = [[''m'', ''A'', ''01.flac''], [''m'', ''A'', ''02.FLAC''], [''m'', ''A'', ''cover.JPG''],
          [''m'', ''A [MP3 V0]'', ''cover.JPG''], [''m'', ''A [MP3 V0]'', ''01.mp3'']]"
    by code_simp
next
  show "spawned (snd (transcode_folder sample_env ''/m/A'' ''V0'' sample_world))
       = [[''flac'', ''-Vdsc'', ''-o'', ''/tmp/tmp0.wav'', ''/m/A/01.flac''],
          [''lame'', ''-V'', ''0'', ''--vbr-new'', ''--quiet'', ''--add-id3v2'',
           ''--ignore-tag-errors'', ''/tmp/tmp0.wav'', ''/m/A [MP3 V0]/01.mp3'']]"
    by code_simp
next
  show "fst (validate_lossless ''/m/A''
             (sample_world\<lparr>files := files sample_world @ [([''m'', ''A'', ''03.MP3''], Data [])]\<rparr>))
       = Inl Abort"
    by code_simp
qed

theorem C10_collector_witness:
  "suffix ''.flac'' ''/m/A/01.flac''
   \<and> \<not> suffix ''.flac'' ''02.FLAC''
   \<and> fst (validate_lossless ''/m/A''
             (sample_world\<lparr>files := files sample_world @ [([''m'', ''A'', ''03.MP3''], Data [])]\<rparr>))
       = Inl Abort"
proof -
  let ?it = "\<lparr>src = ''/m/A/01.flac'', dst = ''/m/A [MP3 V0]/01.mp3'', flac_obj = sample_flac,
               tags = [(''tracknumber'', [''3/12'']), (''mood'', [''calm'', ''slow''])]\<rparr>"
  let ?w = "sample_world\<lparr>files := files sample_world @ [([''m'', ''A'', ''03.MP3''], Data [])]\<rparr>"
  let ?f = "[''m'', ''A'', ''03.MP3'']"
  have c: "collect_transcode_items (set_rank sample_env) ''/m/A'' ''/m/A [MP3 V0]'' sample_world = Inr [?it]"
    by code_simp
  from C10_collector_matches_lowercase_flac[where rank = "set_rank sample_env" and path = "''/m/A''"
      and new_path = "''/m/A [MP3 V0]''" and w = sample_world and items = "[?it]"] c
  have "\<forall>it \<in> set [?it]. suffix ''.flac'' (src it)" by blast
  then have a: "suffix ''.flac'' ''/m/A/01.flac''" by simp
  have n: "\<not> suffix ''.flac'' ''02.FLAC''" by code_simp
  have f1: "?f \<in> set (map fst (files ?w))" by (simp add: sample_world_def)
  have f2: "strict_prefix (parts ''/m/A'') ?f" by code_simp
  have f3: "lower (splitext_ext (last ?f)) \<in> set LOSSY_EXTENSIONS" by code_simp
  from C10_collector_matches_lowercase_flac[where path = "''/m/A''" and w = ?w and f = ?f] f1 f2 f3
  have b: "fst (validate_lossless ''/m/A'' ?w) = Inl Abort" by blast
  from a n b show ?thesis by blast
qed

end
